theory Spec2Isabelle
  imports Complex_Main "HOL-Library.Sublist" "HOL-Library.Multiset"
begin

section \<open>JavaScript numbers\<close>

text \<open>
  A \<open>number\<close> is an IEEE 754 double: a finite value, one of the two infinities, or NaN. A
  finite double is carried as the real it denotes. Every arithmetic operation gives the
  exact result rounded to the nearest double, ties to the even significand
  (\<open>round_to_double\<close>): 53 bits of significand, exponents from -1022 to 1023, gradual
  underflow below \<open>2 ^ -1022\<close>, and an infinity when the rounded magnitude reaches
  \<open>2 ^ 1024\<close>. The one
  thing left out is the sign of zero: \<open>-0\<close> and \<open>+0\<close> are the same value here. The
  modelled code cannot tell them apart: it compares them, tests them for truthiness and
  takes absolute values, and it never divides by a zero.

  A value \<open>Finite r\<close> is a value of the program when \<open>r\<close> is a double; the operations only
  produce such values, and a decimal literal of the program denotes \<open>lit r\<close>, its nearest
  double.
\<close>

datatype number = Finite real | PosInf | NegInf | NaN

text \<open>The number of binary digits of a natural number.\<close>

fun bitlen :: "nat \<Rightarrow> nat" where
  "bitlen n = (if n = 0 then 0 else Suc (bitlen (n div 2)))"

declare bitlen.simps [simp del]

definition pow2 :: "int \<Rightarrow> real" where
  "pow2 k = (if 0 \<le> k then 2 ^ nat k else 1 / 2 ^ nat (- k))"

text \<open>The binary exponent of \<open>a > 0\<close>: the \<open>e\<close> with \<open>2 ^ e \<le> a < 2 ^ (e + 1)\<close>.\<close>

definition expo :: "real \<Rightarrow> int" where
  "expo a = (if 1 \<le> a then int (bitlen (nat \<lfloor>a\<rfloor>)) - 1
             else - int (bitlen (nat (\<lceil>1 / a\<rceil> - 1))))"

text \<open>The nearest integer of \<open>y \<ge> 0\<close>, a tie going to the even one.\<close>

definition rne :: "real \<Rightarrow> int" where
  "rne y = (let f = \<lfloor>y\<rfloor>; d = y - of_int f in
            if d < 1 / 2 then f
            else if 1 / 2 < d then f + 1
            else if even f then f else f + 1)"

definition round_to_double :: "real \<Rightarrow> number" where
  "round_to_double r =
    (if r = 0 then Finite 0
     else
       let a = \<bar>r\<bar>;
           e = max (expo a) (- 1022);
           ulp = pow2 (e - 52);
           v = of_int (rne (a / ulp)) * ulp
       in if pow2 1024 \<le> v then (if 0 < r then PosInf else NegInf)
          else Finite (if 0 < r then v else - v))"

definition lit :: "real \<Rightarrow> number" where
  "lit r = round_to_double r"

text \<open>An array length, below \<open>2 ^ 32\<close>, is a double.\<close>

definition of_len :: "nat \<Rightarrow> number" where
  "of_len n = Finite (real n)"

definition sign_of :: "number \<Rightarrow> int" where
  "sign_of x =
    (case x of
       Finite a \<Rightarrow> (if 0 < a then 1 else if a < 0 then - 1 else 0)
     | PosInf \<Rightarrow> 1
     | NegInf \<Rightarrow> - 1
     | NaN \<Rightarrow> 0)"

definition inf_with_sign :: "int \<Rightarrow> number" where
  "inf_with_sign s = (if 0 < s then PosInf else if s < 0 then NegInf else NaN)"

fun fneg :: "number \<Rightarrow> number" where
  "fneg (Finite a) = Finite (- a)"
| "fneg PosInf = NegInf"
| "fneg NegInf = PosInf"
| "fneg NaN = NaN"

text \<open>\<open>Math.abs\<close>.\<close>

fun fabs :: "number \<Rightarrow> number" where
  "fabs (Finite a) = Finite \<bar>a\<bar>"
| "fabs PosInf = PosInf"
| "fabs NegInf = PosInf"
| "fabs NaN = NaN"

fun fadd :: "number \<Rightarrow> number \<Rightarrow> number" where
  "fadd NaN y = NaN"
| "fadd x NaN = NaN"
| "fadd (Finite a) (Finite b) = round_to_double (a + b)"
| "fadd PosInf NegInf = NaN"
| "fadd NegInf PosInf = NaN"
| "fadd PosInf y = PosInf"
| "fadd x PosInf = PosInf"
| "fadd NegInf y = NegInf"
| "fadd x NegInf = NegInf"

definition fsub :: "number \<Rightarrow> number \<Rightarrow> number" where
  "fsub x y = fadd x (fneg y)"

fun fmul :: "number \<Rightarrow> number \<Rightarrow> number" where
  "fmul NaN y = NaN"
| "fmul x NaN = NaN"
| "fmul (Finite a) (Finite b) = round_to_double (a * b)"
| "fmul x y = inf_with_sign (sign_of x * sign_of y)"

text \<open>
  Division. A zero divisor counts as \<open>+0\<close>; the modelled code checks its divisors and
  never reaches that case.
\<close>

fun fdiv :: "number \<Rightarrow> number \<Rightarrow> number" where
  "fdiv NaN y = NaN"
| "fdiv x NaN = NaN"
| "fdiv (Finite a) (Finite b) =
    (if b = 0 then inf_with_sign (sign_of (Finite a)) else round_to_double (a / b))"
| "fdiv (Finite a) y = Finite 0"
| "fdiv x (Finite b) = inf_with_sign (sign_of x * (if b < 0 then - 1 else 1))"
| "fdiv x y = NaN"

text \<open>The comparisons \<open><=\<close>, \<open><\<close>, \<open>>=\<close>, \<open>>\<close> and \<open>===\<close>: all false on NaN.\<close>

definition fle :: "number \<Rightarrow> number \<Rightarrow> bool" where
  "fle x y =
    (case (x, y) of
       (Finite a, Finite b) \<Rightarrow> a \<le> b
     | (NaN, _) \<Rightarrow> False
     | (_, NaN) \<Rightarrow> False
     | (NegInf, _) \<Rightarrow> True
     | (_, PosInf) \<Rightarrow> True
     | _ \<Rightarrow> False)"

definition flt :: "number \<Rightarrow> number \<Rightarrow> bool" where
  "flt x y = (fle x y \<and> x \<noteq> y)"

definition fge :: "number \<Rightarrow> number \<Rightarrow> bool" where
  "fge x y = fle y x"

definition fgt :: "number \<Rightarrow> number \<Rightarrow> bool" where
  "fgt x y = flt y x"

definition feq :: "number \<Rightarrow> number \<Rightarrow> bool" where
  "feq x y = (x \<noteq> NaN \<and> x = y)"

text \<open>\<open>x || d\<close> on a number: \<open>0\<close> and NaN are falsy.\<close>

definition num_or :: "number \<Rightarrow> number \<Rightarrow> number" where
  "num_or x d = (if x = Finite 0 \<or> x = NaN then d else x)"

section \<open>Data model (lib/db/schema)\<close>

text \<open>
  Dates are milliseconds since the epoch (\<open>int\<close>). An optional field \<open>f?: T\<close> is
  \<open>T option\<close>. Fields of \<open>Tweet\<close> that no modelled function reads (avatar, metrics, spam
  score) are left out. A \<open>string\<close> is the UTF-8 text of the JavaScript string.
\<close>

datatype TweetCategory =
  breaking_news | rumor | opinion | analysis | official | spam | unknown

record SentimentAnalysis =
  score :: number
  confidence :: number

record Tweet =
  tweet_id :: string
  text_t :: string
  author_username :: string
  createdAt :: int
  source :: string
  sentiment :: "SentimentAnalysis option"
  category :: "TweetCategory option"

datatype ConditionType =
  velocity_spike | sentiment_shift | keyword_match | category_match

record AlertCondition =
  type_c :: ConditionType
  threshold :: "number option"
  keywords_c :: "string list option"
  categories :: "TweetCategory list option"
  windowMinutes :: "number option"

datatype ActionType =
  discord_webhook | in_app_notification | email

record AlertAction =
  type_a :: ActionType
  webhookUrl :: "string option"
  email_address :: "string option"

record Alert =
  alert_id :: string
  name :: string
  enabled :: bool
  conditions :: "AlertCondition list"
  actions :: "AlertAction list"
  createdAt_alert :: int
  lastTriggeredAt :: "int option"
  triggerCount :: nat

record VelocitySnapshot =
  snapshot_id :: string
  timestamp :: int
  count_v :: number
  sentimentAvg :: number

section \<open>Spike detection (lib/alerts/engine)\<close>

datatype Severity = low | medium | high | critical

record SpikeDetectionResult =
  isSpike :: bool
  severity :: Severity
  percentageIncrease :: number
  currentCount :: number
  averageCount :: number

text \<open>
  \<open>condition.threshold || d\<close> on an optional number: \<open>undefined\<close>, \<open>0\<close> and NaN are
  falsy and give the default.
\<close>

definition or_default :: "number option \<Rightarrow> number \<Rightarrow> number" where
  "or_default v d = (case v of None \<Rightarrow> d | Some x \<Rightarrow> num_or x d)"

text \<open>\<open>xs.reduce((a, b) => a + b, 0)\<close>: the additions run from the left, each one rounded.\<close>

definition sum_numbers :: "number list \<Rightarrow> number" where
  "sum_numbers xs = foldl fadd (Finite 0) xs"

text \<open>
  \<open>detectSpike(snapshots, thresholdPercent = 300)\<close>: the second argument is optional;
  \<open>None\<close> is the omitted argument. \<open>snapshots.slice(0, -1)\<close> is \<open>butlast\<close>.
\<close>

definition detectSpike :: "VelocitySnapshot list \<Rightarrow> number option \<Rightarrow> SpikeDetectionResult" where
  "detectSpike snapshots thresholdPercent_opt =
    (let thresholdPercent = (case thresholdPercent_opt of None \<Rightarrow> Finite 300 | Some t \<Rightarrow> t) in
     if length snapshots < 2 then
       \<lparr> isSpike = False, severity = low, percentageIncrease = Finite 0,
         currentCount = (case snapshots of [] \<Rightarrow> Finite 0 | s # _ \<Rightarrow> num_or (count_v s) (Finite 0)),
         averageCount = Finite 0 \<rparr>
     else
       let recentCount = count_v (last snapshots);
           previousCounts = map count_v (butlast snapshots);
           averageCount = fdiv (sum_numbers previousCounts) (of_len (length previousCounts))
       in
         if feq averageCount (Finite 0) then
           \<lparr> isSpike = fgt recentCount (Finite 10),
             severity = (if fgt recentCount (Finite 50) then high
                         else if fgt recentCount (Finite 20) then medium else low),
             percentageIncrease = Finite 100,
             currentCount = recentCount,
             averageCount = Finite 0 \<rparr>
         else
           let percentageIncrease =
                 fmul (fdiv (fsub recentCount averageCount) averageCount) (Finite 100) in
           \<lparr> isSpike = fge percentageIncrease thresholdPercent,
             severity = (if fge percentageIncrease (Finite 500) then critical
                         else if fge percentageIncrease (Finite 400) then high
                         else if fge percentageIncrease (Finite 300) then medium else low),
             percentageIncrease = percentageIncrease,
             currentCount = recentCount,
             averageCount = averageCount \<rparr>)"

section \<open>Alert condition evaluation\<close>

record AlertContext =
  tweets :: "Tweet list"
  snapshots :: "VelocitySnapshot list"
  currentVelocity :: number
  averageVelocity :: number

text \<open>
  \<open>String.prototype.toLowerCase\<close> belongs to the platform: it lowers every cased letter of
  Unicode by the tables of the standard. The functions that call it take it as the
  parameter \<open>lc\<close>, and every property below holds for every \<open>lc\<close>. On text made of ASCII
  characters it is \<open>toLowerCase_ascii\<close>, which the examples use.
\<close>

type_synonym lowercase = "string \<Rightarrow> string"

definition toLowerCase_char :: "char \<Rightarrow> char" where
  "toLowerCase_char c =
    (let n = (of_char c :: nat) in if 65 \<le> n \<and> n \<le> 90 then char_of (n + 32) else c)"

definition toLowerCase_ascii :: lowercase where
  "toLowerCase_ascii s = map toLowerCase_char s"

text \<open>\<open>s.includes(k)\<close>: \<open>k\<close> occurs in \<open>s\<close> as a contiguous substring.\<close>

fun includes_str :: "string \<Rightarrow> string \<Rightarrow> bool" where
  "includes_str [] k = (k = [])"
| "includes_str (c # cs) k = (prefix k (c # cs) \<or> includes_str cs k)"

text \<open>
  The sum of \<open>sentiment_shift\<close>: \<open>.filter((t) => t.sentiment).reduce((sum, t) => sum +
  (t.sentiment?.score || 0), 0)\<close>. Only the items with a sentiment are added, from the
  left, each addition rounded; a score that is NaN counts as 0.
\<close>

definition score_or_zero :: "Tweet \<Rightarrow> number" where
  "score_or_zero t =
    (case sentiment t of None \<Rightarrow> Finite 0 | Some s \<Rightarrow> num_or (score s) (Finite 0))"

definition sentiment_sum :: "Tweet list \<Rightarrow> number" where
  "sentiment_sum ts =
    foldl (\<lambda>sum t. fadd sum (score_or_zero t)) (Finite 0)
          (filter (\<lambda>t. sentiment t \<noteq> None) ts)"

text \<open>
  The count of \<open>category_match\<close>: \<open>.filter((t) => t.category &&
  condition.categories?.includes(t.category)).length\<close>.
\<close>

definition matchCount :: "TweetCategory list \<Rightarrow> Tweet list \<Rightarrow> nat" where
  "matchCount cats ts =
    length (filter (\<lambda>t. case category t of None \<Rightarrow> False | Some c \<Rightarrow> c \<in> set cats) ts)"

definition evaluateCondition :: "lowercase \<Rightarrow> AlertCondition \<Rightarrow> AlertContext \<Rightarrow> bool" where
  "evaluateCondition lc condition context =
    (case type_c condition of
       velocity_spike \<Rightarrow>
         isSpike (detectSpike (snapshots context)
                    (Some (or_default (threshold condition) (Finite 300))))
     | sentiment_shift \<Rightarrow>
         if length (tweets context) < 10 then False
         else
           let recentTweets = take 20 (tweets context);
               avgSentiment = fdiv (sentiment_sum recentTweets) (of_len (length recentTweets));
               th = or_default (threshold condition) (Finite (1 / 2))
           in fge (fabs avgSentiment) th
     | keyword_match \<Rightarrow>
         (case keywords_c condition of
            None \<Rightarrow> False
          | Some ks \<Rightarrow>
              if ks = [] then False
              else
                let recentTweets = take 50 (tweets context);
                    kws = map lc ks
                in list_ex (\<lambda>tweet. list_ex (\<lambda>keyword.
                      includes_str (lc (text_t tweet)) keyword) kws) recentTweets)
     | category_match \<Rightarrow>
         (case categories condition of
            None \<Rightarrow> False
          | Some cats \<Rightarrow>
              if cats = [] then False
              else fge (of_len (matchCount cats (take 20 (tweets context))))
                       (or_default (threshold condition) (Finite 5))))"

text \<open>\<open>alert.conditions.every(...)\<close> behind the \<open>enabled\<close> gate.\<close>

definition evaluateAlert :: "lowercase \<Rightarrow> Alert \<Rightarrow> AlertContext \<Rightarrow> bool" where
  "evaluateAlert lc alert context =
    (if \<not> enabled alert then False
     else list_all (\<lambda>condition. evaluateCondition lc condition context) (conditions alert))"

section \<open>Alert action execution\<close>

text \<open>
  The outside world of the dispatcher: \<open>net\<close> gives the outcome of the \<open>n\<close>-th call of
  \<open>fetch\<close> (a response with its \<open>ok\<close> flag, or a thrown network error), \<open>calls\<close> counts the
  calls made so far, \<open>clock\<close> is what \<open>new Date()\<close> reads, and \<open>events\<close> is the trace of the
  effects in the order the code starts them: webhook posts and the two console notifications.
  The JSON body of a webhook post is a function of the trigger data; the trace keeps the data
  instead of the formatted message.
\<close>

record AlertTriggerData =
  alert :: Alert
  trigger_type :: string
  details :: string
  trigger_tweets :: "Tweet list"
  velocity :: "number option"
  trigger_sentiment :: "number option"
  timestamp_d :: int

datatype FetchOutcome = Responded bool | NetworkError

datatype Event =
    WebhookPost string AlertTriggerData
  | InAppLog AlertTriggerData
  | EmailLog AlertTriggerData

record World =
  net :: "nat \<Rightarrow> FetchOutcome"
  calls :: nat
  clock :: int
  events :: "Event list"

fun event_data :: "Event \<Rightarrow> AlertTriggerData" where
  "event_data (WebhookPost url d) = d"
| "event_data (InAppLog d) = d"
| "event_data (EmailLog d) = d"

text \<open>\<open>sendDiscordWebhook\<close>: \<open>response.ok\<close>, or \<open>false\<close> from the \<open>catch\<close> block.\<close>

definition sendDiscordWebhook :: "World \<Rightarrow> string \<Rightarrow> AlertTriggerData \<Rightarrow> bool \<times> World" where
  "sendDiscordWebhook w url d =
    (let outcome = net w (calls w);
         w' = w\<lparr> calls := Suc (calls w), events := events w @ [WebhookPost url d] \<rparr>
     in (case outcome of Responded ok \<Rightarrow> ok | NetworkError \<Rightarrow> False, w'))"

definition executeAction :: "World \<Rightarrow> AlertAction \<Rightarrow> AlertTriggerData \<Rightarrow> bool \<times> World" where
  "executeAction w action d =
    (case type_a action of
       discord_webhook \<Rightarrow>
         (case webhookUrl action of
            None \<Rightarrow> (False, w)
          | Some url \<Rightarrow> if url = [] then (False, w) else sendDiscordWebhook w url d)
     | in_app_notification \<Rightarrow> (True, w\<lparr> events := events w @ [InAppLog d] \<rparr>)
     | email \<Rightarrow> (True, w\<lparr> events := events w @ [EmailLog d] \<rparr>))"

text \<open>
  \<open>Promise.all(alert.actions.map(...))\<close>: \<open>map\<close> starts every action, in the order of the
  list, and no action rejects, so the results are one boolean per action.
\<close>

fun executeActions :: "World \<Rightarrow> AlertAction list \<Rightarrow> AlertTriggerData \<Rightarrow> bool list \<times> World" where
  "executeActions w [] d = ([], w)"
| "executeActions w (a # as) d =
    (let (r, w1) = executeAction w a d;
         (rs, w2) = executeActions w1 as d
     in (r # rs, w2))"

definition triggerData_of :: "World \<Rightarrow> Alert \<Rightarrow> AlertContext \<Rightarrow> AlertTriggerData" where
  "triggerData_of w a context =
    \<lparr> alert = a,
      trigger_type = ''velocity_spike'',
      details = ''Alert '' @ [CHR 0x22] @ name a @ [CHR 0x22]
                  @ '' triggered based on configured conditions.'',
      trigger_tweets = take 5 (tweets context),
      velocity = Some (currentVelocity context),
      trigger_sentiment =
        (case tweets context of
           [] \<Rightarrow> None
         | t # _ \<Rightarrow> (case sentiment t of None \<Rightarrow> None | Some s \<Rightarrow> Some (score s))),
      timestamp_d = clock w \<rparr>"

definition triggerAlert :: "World \<Rightarrow> Alert \<Rightarrow> AlertContext \<Rightarrow> bool \<times> World" where
  "triggerAlert w a context =
    (let (results, w') = executeActions w (actions a) (triggerData_of w a context)
     in (list_ex (\<lambda>r. r) results, w'))"

section \<open>Alert engine\<close>

record AlertEngine =
  alerts :: "Alert list"
  context_e :: AlertContext

record PartialContext =
  p_tweets :: "Tweet list option"
  p_snapshots :: "VelocitySnapshot list option"
  p_currentVelocity :: "number option"
  p_averageVelocity :: "number option"

definition new_AlertEngine :: AlertEngine where
  "new_AlertEngine =
    \<lparr> alerts = [],
      context_e = \<lparr> tweets = [], snapshots = [], currentVelocity = Finite 0,
                    averageVelocity = Finite 0 \<rparr> \<rparr>"

definition setAlerts :: "AlertEngine \<Rightarrow> Alert list \<Rightarrow> AlertEngine" where
  "setAlerts e as = e\<lparr> alerts := as \<rparr>"

definition updateContext :: "AlertEngine \<Rightarrow> PartialContext \<Rightarrow> AlertEngine" where
  "updateContext e p =
    e\<lparr> context_e :=
        \<lparr> tweets = (case p_tweets p of None \<Rightarrow> tweets (context_e e) | Some v \<Rightarrow> v),
          snapshots = (case p_snapshots p of None \<Rightarrow> snapshots (context_e e) | Some v \<Rightarrow> v),
          currentVelocity =
            (case p_currentVelocity p of None \<Rightarrow> currentVelocity (context_e e) | Some v \<Rightarrow> v),
          averageVelocity =
            (case p_averageVelocity p of None \<Rightarrow> averageVelocity (context_e e) | Some v \<Rightarrow> v) \<rparr> \<rparr>"

text \<open>
  The \<open>for\<close> loop of \<open>checkAlerts\<close>, with the local array \<open>triggered\<close> as accumulator. The
  loop reads the alerts and the context and writes neither.
\<close>

fun checkAlerts_loop :: "lowercase \<Rightarrow> World \<Rightarrow> AlertContext \<Rightarrow> Alert list \<Rightarrow> Alert list \<Rightarrow> Alert list \<times> World" where
  "checkAlerts_loop lc w context [] triggered = (triggered, w)"
| "checkAlerts_loop lc w context (a # as) triggered =
    (if evaluateAlert lc a context then
       (let (success, w') = triggerAlert w a context
        in checkAlerts_loop lc w' context as (if success then triggered @ [a] else triggered))
     else checkAlerts_loop lc w context as triggered)"

definition checkAlerts :: "lowercase \<Rightarrow> World \<Rightarrow> AlertEngine \<Rightarrow> Alert list \<times> AlertEngine \<times> World" where
  "checkAlerts lc w e =
    (let (triggered, w') = checkAlerts_loop lc w (context_e e) (alerts e) []
     in (triggered, e, w'))"

text \<open>
  A run of the monitoring timer: before each tick the caller refreshes the context, then the
  timer callback runs \<open>checkAlerts\<close>. The result keeps the list returned by every tick.
\<close>

fun run_ticks :: "lowercase \<Rightarrow> World \<Rightarrow> AlertEngine \<Rightarrow> PartialContext list \<Rightarrow> Alert list list \<times> AlertEngine \<times> World" where
  "run_ticks lc w e [] = ([], e, w)"
| "run_ticks lc w e (p # ps) =
    (let (triggered, e1, w1) = checkAlerts lc w (updateContext e p);
         (rest, e2, w2) = run_ticks lc w1 e1 ps
     in (triggered # rest, e2, w2))"

section \<open>RSS feeds (lib/api/rss-feeds)\<close>

record FeedSource =
  feed_id :: string
  feed_name :: string
  url :: string
  followerCount :: nat

definition RSS_FEEDS :: "FeedSource list" where
  "RSS_FEEDS =
    [ \<lparr> feed_id = ''defillama'', feed_name = ''DeFiLlama'',
        url = ''https://defillama.substack.com/feed'', followerCount = 1000000 \<rparr>,
      \<lparr> feed_id = ''coindesk'', feed_name = ''CoinDesk'',
        url = ''https://www.coindesk.com/arc/outboundfeeds/rss/'', followerCount = 3000000 \<rparr>,
      \<lparr> feed_id = ''theblock'', feed_name = ''The Block'',
        url = ''https://www.theblock.co/rss.xml'', followerCount = 800000 \<rparr>,
      \<lparr> feed_id = ''decrypt'', feed_name = ''Decrypt'',
        url = ''https://decrypt.co/feed'', followerCount = 600000 \<rparr> ]"

text \<open>
  \<open>xs.slice(0, n)\<close> for a number \<open>n\<close> that is an integer or NaN (\<open>None\<close>): NaN counts as
  0, and a negative end counts from the end of the array.
\<close>

definition js_slice0 :: "'a list \<Rightarrow> int option \<Rightarrow> 'a list" where
  "js_slice0 xs n =
    (case n of
       None \<Rightarrow> []
     | Some e \<Rightarrow> if e < 0 then take (nat (int (length xs) + e)) xs else take (nat e) xs)"

text \<open>
  The providers behind the route: \<open>rss\<close> gives, for the url of a feed, what
  \<open>parser.parseURL\<close> does (the message of the rejection, if it has one, or the items of the
  feed, already normalised to tweets, in the order of the feed); \<open>newsapi\<close> and \<open>xapi\<close> give
  what the two clients do for a query (a thrown error, or the status and the transformed
  articles, or the transformed tweets); \<open>mock\<close> is the sequence of tweets that the random
  generator \<open>generateMockTweet\<close> returns, one per call: the generator reads the clock and
  \<open>Math.random\<close>, indexes only arrays that are not empty, and always returns a tweet.
  Normalising an item does not change the number or the order of the items, so slicing the
  normalised items is slicing the feed.
\<close>

record Providers =
  rss :: "string \<Rightarrow> string option + Tweet list"
  newsapi_configured :: bool
  newsapi :: "string \<Rightarrow> string + string \<times> Tweet list"
  xapi_configured :: bool
  xapi :: "string \<Rightarrow> string + Tweet list"
  mock :: "nat \<Rightarrow> Tweet"

definition fetchRssFeed :: "Providers \<Rightarrow> FeedSource \<Rightarrow> int option \<Rightarrow> string option + Tweet list" where
  "fetchRssFeed env src limit =
    (case rss env (url src) of
       Inl reason \<Rightarrow> Inl reason
     | Inr items \<Rightarrow> Inr (js_slice0 items limit))"

text \<open>
  \<open>tweets.sort((a, b) => b.createdAt.getTime() - a.createdAt.getTime())\<close>:
  \<open>Array.prototype.sort\<close> is stable, and the stable sort of a list by a key is unique, so
  the result is the stable insertion sort by the negated time.
\<close>

definition sort_newest_first :: "Tweet list \<Rightarrow> Tweet list" where
  "sort_newest_first ts = sort_key (\<lambda>t. - createdAt t) ts"

text \<open>
  The \<open>forEach\<close> over the settled results, in the order of \<open>sources\<close>
  (\<open>Promise.allSettled\<close> keeps the order of its input whatever the order of completion),
  then the sort.
\<close>

definition merge_settled :: "(FeedSource \<times> (string option + Tweet list)) list \<Rightarrow> Tweet list \<times> string list" where
  "merge_settled results =
    (let ts = concat (map (\<lambda>(s, r). case r of Inr v \<Rightarrow> v | Inl _ \<Rightarrow> []) results);
         errors = concat (map (\<lambda>(s, r). case r of
                      Inr _ \<Rightarrow> []
                    | Inl reason \<Rightarrow>
                        [feed_name s @ '': '' @
                          (case reason of None \<Rightarrow> ''unknown error'' | Some m \<Rightarrow> m)]) results)
     in (sort_newest_first ts, errors))"

definition fetchAllRssFeeds :: "Providers \<Rightarrow> string list \<Rightarrow> int option \<Rightarrow> Tweet list \<times> string list" where
  "fetchAllRssFeeds env sourceIds limit =
    (let sources = filter (\<lambda>f. feed_id f \<in> set sourceIds) RSS_FEEDS
     in merge_settled (map (\<lambda>s. (s, fetchRssFeed env s limit)) sources))"

definition filterByKeywords :: "lowercase \<Rightarrow> Tweet list \<Rightarrow> string list \<Rightarrow> Tweet list" where
  "filterByKeywords lc ts kws =
    (if kws = [] then ts
     else filter (\<lambda>t. list_ex (\<lambda>kw. includes_str (lc (text_t t)) kw) (map lc kws)) ts)"

section \<open>The route GET /api/tweets\<close>

text \<open>
  The request after \<open>URL\<close> parsing: the raw parameters, except \<open>max\<close>, which is the value
  of \<open>parseInt(searchParams.get('max') || '20')\<close>, an integer or NaN (\<open>None\<close>).
\<close>

record Request =
  query_p :: "string option"
  max_parsed :: "int option"
  sources_p :: "string option"
  keywords_p :: "string option"

record Response =
  resp_tweets :: "Tweet list"
  resp_source :: string
  resp_errors :: "string list"

text \<open>\<open>s.split(',')\<close>: never the empty array.\<close>

fun split_comma :: "string \<Rightarrow> string list" where
  "split_comma [] = [[]]"
| "split_comma (c # cs) =
    (if c = CHR '','' then [] # split_comma cs
     else (case split_comma cs of [] \<Rightarrow> [[c]] | p # ps \<Rightarrow> (c # p) # ps))"

text \<open>\<open>p || d\<close> on a parameter: \<open>null\<close> and the empty string give the default.\<close>

definition param_or :: "string option \<Rightarrow> string \<Rightarrow> string" where
  "param_or p d = (case p of None \<Rightarrow> d | Some s \<Rightarrow> if s = [] then d else s)"

text \<open>\<open>Math.min(n, 50)\<close>, and \<open>Math.ceil(max / k) + 5\<close> for \<open>k > 0\<close>; NaN stays NaN.\<close>

definition min50 :: "int option \<Rightarrow> int option" where
  "min50 n = (case n of None \<Rightarrow> None | Some v \<Rightarrow> Some (min v 50))"

definition rss_limit :: "int option \<Rightarrow> nat \<Rightarrow> int option" where
  "rss_limit m k = (case m of None \<Rightarrow> None | Some v \<Rightarrow> Some (- ((- v) div int k) + 5))"

text \<open>
  \<open>Array.from({ length: max }, ...)\<close>: the length is \<open>ToLength(max)\<close>, 0 for NaN and for a
  negative number.
\<close>

definition array_length :: "int option \<Rightarrow> nat" where
  "array_length m = (case m of None \<Rightarrow> 0 | Some v \<Rightarrow> nat v)"

definition mock_tier :: "Providers \<Rightarrow> int option \<Rightarrow> Response" where
  "mock_tier env m =
    \<lparr> resp_tweets = map (mock env) [0..<array_length m], resp_source = ''mock'',
      resp_errors = [] \<rparr>"

definition xapi_tier :: "Providers \<Rightarrow> string \<Rightarrow> int option \<Rightarrow> Response" where
  "xapi_tier env query m =
    (if xapi_configured env then
       (case xapi env query of
          Inr ts \<Rightarrow> \<lparr> resp_tweets = ts, resp_source = ''x_api'', resp_errors = [] \<rparr>
        | Inl err \<Rightarrow> mock_tier env m)
     else mock_tier env m)"

definition newsapi_tier :: "Providers \<Rightarrow> string \<Rightarrow> int option \<Rightarrow> Response" where
  "newsapi_tier env query m =
    (if newsapi_configured env then
       (case newsapi env query of
          Inr (status, ts) \<Rightarrow>
            if status \<noteq> ''ok'' then xapi_tier env query m
            else \<lparr> resp_tweets = ts, resp_source = ''newsapi'', resp_errors = [] \<rparr>
        | Inl err \<Rightarrow> xapi_tier env query m)
     else xapi_tier env query m)"

definition rss_sliced :: "lowercase \<Rightarrow> Providers \<Rightarrow> Request \<Rightarrow> Tweet list \<times> string list" where
  "rss_sliced lc env req =
    (let m = min50 (max_parsed req);
         sources = split_comma (param_or (sources_p req) ''defillama,coindesk,theblock,decrypt'');
         kwParam = (case keywords_p req of None \<Rightarrow> [] | Some s \<Rightarrow> s);
         kws = (if kwParam \<noteq> [] then filter (\<lambda>k. k \<noteq> []) (split_comma kwParam) else []);
         (ts, errors) = fetchAllRssFeeds env sources (rss_limit m (length sources));
         filtered = (if kws \<noteq> [] then filterByKeywords lc ts kws else ts)
     in (js_slice0 filtered m, errors))"

definition default_query :: string where
  "default_query = ''breaking OR market OR technology OR politics''"

definition GET :: "lowercase \<Rightarrow> Providers \<Rightarrow> Request \<Rightarrow> Response" where
  "GET lc env req =
    (let query = param_or (query_p req) default_query;
         m = min50 (max_parsed req);
         (sliced, errors) = rss_sliced lc env req
     in if sliced \<noteq> [] then
          \<lparr> resp_tweets = sliced, resp_source = ''rss'', resp_errors = errors \<rparr>
        else newsapi_tier env query m)"

section \<open>Notions used to state the properties\<close>

text \<open>The effect that an action starts, if any: a webhook action without a url starts none.\<close>

definition action_event :: "AlertAction \<Rightarrow> AlertTriggerData \<Rightarrow> Event option" where
  "action_event act d =
    (case type_a act of
       discord_webhook \<Rightarrow>
         (case webhookUrl act of
            None \<Rightarrow> None
          | Some u \<Rightarrow> if u = [] then None else Some (WebhookPost u d))
     | in_app_notification \<Rightarrow> Some (InAppLog d)
     | email \<Rightarrow> Some (EmailLog d))"

text \<open>The items of the feeds that were fetched, in the order of the sources.\<close>

definition fulfilled :: "(FeedSource \<times> (string option + Tweet list)) list \<Rightarrow> Tweet list" where
  "fulfilled results = concat (map (\<lambda>(s, r). case r of Inr v \<Rightarrow> v | Inl _ \<Rightarrow> []) results)"

section \<open>Example inputs\<close>

text \<open>A snapshot with a count that is a double as it stands (an integer below \<open>2 ^ 53\<close>).\<close>

definition snap :: "real \<Rightarrow> VelocitySnapshot" where
  "snap c = \<lparr> snapshot_id = [], timestamp = 0, count_v = Finite c, sentimentAvg = Finite 0 \<rparr>"

definition plain_tweet :: "number option \<Rightarrow> TweetCategory option \<Rightarrow> Tweet" where
  "plain_tweet s c =
    \<lparr> tweet_id = ''t'', text_t = ''Oil prices surge'', author_username = ''Reuters'',
      createdAt = 0, source = ''api'',
      sentiment = (case s of None \<Rightarrow> None
                   | Some x \<Rightarrow> Some \<lparr> score = x, confidence = Finite 1 \<rparr>),
      category = c \<rparr>"

definition tweets_context :: "Tweet list \<Rightarrow> AlertContext" where
  "tweets_context ts =
    \<lparr> tweets = ts, snapshots = [], currentVelocity = Finite 0, averageVelocity = Finite 0 \<rparr>"




definition breaking_condition :: "number option \<Rightarrow> AlertCondition" where
  "breaking_condition th = \<lparr> type_c = category_match, threshold = th, keywords_c = None,
      categories = Some [breaking_news], windowMinutes = None \<rparr>"

definition spike_condition :: AlertCondition where
  "spike_condition = \<lparr> type_c = velocity_spike, threshold = Some (Finite 300),
      keywords_c = None, categories = None, windowMinutes = None \<rparr>"

definition spike_context :: AlertContext where
  "spike_context = \<lparr> tweets = [], snapshots = map snap [10, 10, 10, 40],
      currentVelocity = Finite 40, averageVelocity = Finite 10 \<rparr>"

definition spike_update :: PartialContext where
  "spike_update = \<lparr> p_tweets = None, p_snapshots = Some (map snap [10, 10, 10, 40]),
      p_currentVelocity = Some (Finite 40), p_averageVelocity = Some (Finite 10) \<rparr>"

text \<open>A world where every \<open>fetch\<close> throws.\<close>

definition offline_world :: World where
  "offline_world = \<lparr> net = (\<lambda>n. NetworkError), calls = 0, clock = 0, events = [] \<rparr>"

definition webhook_action :: AlertAction where
  "webhook_action = \<lparr> type_a = discord_webhook,
      webhookUrl = Some ''https://discord.example/hook'', email_address = None \<rparr>"

definition in_app_action :: AlertAction where
  "in_app_action = \<lparr> type_a = in_app_notification, webhookUrl = None, email_address = None \<rparr>"

definition example_alert :: "bool \<Rightarrow> AlertCondition list \<Rightarrow> AlertAction list \<Rightarrow> Alert" where
  "example_alert en cs acts = \<lparr> alert_id = ''alert_1'', name = ''Spike'', enabled = en,
      conditions = cs, actions = acts, createdAt_alert = 0, lastTriggeredAt = None,
      triggerCount = 0 \<rparr>"

definition mixed_alert :: Alert where
  "mixed_alert = example_alert True [spike_condition] [webhook_action, in_app_action]"

definition disabled_alert :: Alert where
  "disabled_alert = example_alert False [spike_condition] [in_app_action]"

definition unconditional_alert :: Alert where
  "unconditional_alert = example_alert True [] [in_app_action]"

definition example_engine :: "Alert list \<Rightarrow> AlertEngine" where
  "example_engine as = updateContext (setAlerts new_AlertEngine as) spike_update"

definition mock_tweet :: "nat \<Rightarrow> Tweet" where
  "mock_tweet n = \<lparr> tweet_id = ''mock_'' @ replicate n (CHR ''x''),
     text_t = ''BREAKING: Bitcoin breaks $100,000 for the first time - More details to follow'',
     author_username = ''Reuters'', createdAt = 1000 - int n, source = ''mock'',
     sentiment = Some \<lparr> score = Finite 0, confidence = Finite 1 \<rparr>,
     category = Some breaking_news \<rparr>"

definition feed_tweet :: "string \<Rightarrow> int \<Rightarrow> Tweet" where
  "feed_tweet i t = \<lparr> tweet_id = i, text_t = ''Ethereum upgrade'', author_username = ''coindesk'',
     createdAt = t, source = ''api'', sentiment = None, category = None \<rparr>"

text \<open>No feed answers and no key is configured.\<close>

definition failing_providers :: Providers where
  "failing_providers =
    \<lparr> rss = (\<lambda>u. Inl (Some ''timeout'')),
      newsapi_configured = False, newsapi = (\<lambda>q. Inl ''NEWSAPI_KEY is not set''),
      xapi_configured = False, xapi = (\<lambda>q. Inl ''no client''),
      mock = mock_tweet \<rparr>"

text \<open>Every feed has one item, all published at the same millisecond.\<close>

definition tie_providers :: Providers where
  "tie_providers = failing_providers \<lparr> rss := (\<lambda>u. Inr [feed_tweet u 1000]) \<rparr>"

text \<open>No feed answers, and NewsAPI answers \<open>ok\<close> with no article.\<close>

definition empty_newsapi_providers :: Providers where
  "empty_newsapi_providers =
    failing_providers \<lparr> newsapi_configured := True, newsapi := (\<lambda>q. Inr (''ok'', [])) \<rparr>"

definition request_max :: "int option \<Rightarrow> Request" where
  "request_max m = \<lparr> query_p = None, max_parsed = m, sources_p = None, keywords_p = None \<rparr>"

definition two_results :: "(FeedSource \<times> (string option + Tweet list)) list" where
  "two_results =
    [ (RSS_FEEDS ! 0, Inr [feed_tweet ''a'' 3, feed_tweet ''b'' 1]),
      (RSS_FEEDS ! 1, Inl None),
      (RSS_FEEDS ! 2, Inr [feed_tweet ''c'' 2]) ]"

section \<open>Numbers: evaluation rules\<close>

lemma bitlen_0 [simp]: "bitlen 0 = 0"
  by (simp add: bitlen.simps)

lemma bitlen_1 [simp]: "bitlen 1 = 1" "bitlen (Suc 0) = 1"
  by (simp_all add: bitlen.simps)

lemma bitlen_Bit0 [simp]: "bitlen (numeral (Num.Bit0 k)) = Suc (bitlen (numeral k))"
proof -
  have "numeral (Num.Bit0 k) div (2::nat) = numeral k" by simp
  then show ?thesis by (subst bitlen.simps) simp
qed

lemma bitlen_Bit1 [simp]: "bitlen (numeral (Num.Bit1 k)) = Suc (bitlen (numeral k))"
proof -
  have "numeral (Num.Bit1 k) div (2::nat) = numeral k" by simp
  then show ?thesis by (subst bitlen.simps) simp
qed

text \<open>Rounding a fraction of integers to the nearest integer, in integer arithmetic.\<close>

lemma rne_fraction:
  assumes "0 < q"
  shows "rne (of_int p / of_int q) =
    (if 2 * (p mod q) < q then p div q
     else if q < 2 * (p mod q) then p div q + 1
     else if even (p div q) then p div q else p div q + 1)"
proof -
  have f: "\<lfloor>(of_int p :: real) / of_int q\<rfloor> = p div q"
    by (simp add: floor_divide_of_int_eq)
  have "(of_int p :: real) = of_int (p div q) * of_int q + of_int (p mod q)"
    by (metis div_mult_mod_eq of_int_add of_int_mult)
  then have d: "(of_int p :: real) / of_int q - of_int (p div q) = of_int (p mod q) / of_int q"
    using assms by (simp add: field_simps)
  have lt: "(of_int (p mod q) / (of_int q :: real) < 1 / 2) = (2 * (p mod q) < q)"
    using assms by (simp add: field_simps) linarith
  have gt: "(1 / 2 < of_int (p mod q) / (of_int q :: real)) = (q < 2 * (p mod q))"
    using assms by (simp add: field_simps) linarith
  show ?thesis
    unfolding rne_def Let_def f d lt gt by simp
qed

lemma rne_numeral_divide [simp]:
  "rne (numeral a / numeral b) =
    (if 2 * (numeral a mod numeral b) < (numeral b :: int) then numeral a div numeral b
     else if (numeral b :: int) < 2 * (numeral a mod numeral b) then numeral a div numeral b + 1
     else if even (numeral a div numeral b :: int) then numeral a div numeral b
     else numeral a div numeral b + 1)"
  using rne_fraction [of "numeral b" "numeral a"] by simp

lemma rne_numeral [simp]: "rne (numeral a) = numeral a" "rne 0 = 0" "rne 1 = 1"
  by (simp_all add: rne_def)

lemma pow2_numeral [simp]:
  "pow2 (numeral k) = 2 ^ numeral k"
  "pow2 (- numeral k) = 1 / 2 ^ numeral k"
  "pow2 0 = 1"
  "pow2 1 = 2"
  by (simp_all add: pow2_def)

lemmas double_eval = round_to_double_def expo_def Let_def lit_def of_len_def
  fsub_def fle_def flt_def fge_def fgt_def feq_def num_or_def sign_of_def inf_with_sign_def

text \<open>
  Known doubles: \<open>0.1\<close>, \<open>0.1 + 0.2 = 0.30000000000000004\<close>, \<open>7 / 3 = 2.3333333333333335\<close>,
  and the first integer that is not a double.
\<close>

lemma lit_tenth: "lit (1 / 10) = Finite (3602879701896397 / 36028797018963968)"
  by (simp add: double_eval)

lemma lit_fifth: "lit (2 / 10) = Finite (3602879701896397 / 18014398509481984)"
  by (simp add: double_eval)

lemma tenth_plus_fifth:
  "fadd (lit (1 / 10)) (lit (2 / 10)) = Finite (1351079888211149 / 4503599627370496)"
  by (simp add: lit_tenth lit_fifth) (simp add: double_eval)

lemma seven_thirds: "fdiv (Finite 7) (Finite 3) = Finite (5254199565265579 / 2251799813685248)"
  by (simp add: double_eval)

lemma odd_above_2_53: "lit 9007199254740993 = Finite 9007199254740992"
  by (simp add: double_eval)

lemma small_integers: "fadd (Finite 10) (Finite 20) = Finite 30" "fdiv (Finite 30) (Finite 3) = Finite 10"
  "fmul (Finite 3) (Finite 100) = Finite 300" "fsub (Finite 40) (Finite 10) = Finite 30"
  by (simp_all add: double_eval)

section \<open>Numbers: the rounding is the one of the standard\<close>

text \<open>
  \<open>expo\<close> is the binary exponent, so \<open>round_to_double\<close> takes the multiple of the unit
  of the binade of its argument that is nearest to it (\<open>rne\<close> breaks a tie towards the
  even multiple), with a significand of 53 bits in the normal range; integers up to
  \<open>2 ^ 53\<close> are kept as they are.
\<close>

lemma bitlen_upper: "n < 2 ^ bitlen n"
proof (induction n rule: bitlen.induct)
  case (1 n)
  show ?case
  proof (cases "n = 0")
    case True
    then show ?thesis by (simp add: bitlen.simps)
  next
    case False
    with 1 have "n div 2 < 2 ^ bitlen (n div 2)" by simp
    then have "n < 2 * 2 ^ bitlen (n div 2)" by linarith
    with False show ?thesis by (subst bitlen.simps) simp
  qed
qed

lemma bitlen_lower: "0 < n \<Longrightarrow> 2 ^ (bitlen n - 1) \<le> n"
proof (induction n rule: bitlen.induct)
  case (1 n)
  then have n: "n \<noteq> 0" by simp
  show ?case
  proof (cases "n div 2 = 0")
    case True
    with n have "n = 1" by linarith
    then show ?thesis by (simp add: bitlen.simps)
  next
    case False
    with 1 n have ih: "2 ^ (bitlen (n div 2) - 1) \<le> n div 2" by simp
    have pos: "0 < bitlen (n div 2)" using False by (subst bitlen.simps) simp
    then have "(2::nat) ^ bitlen (n div 2) = 2 * 2 ^ (bitlen (n div 2) - 1)"
      by (cases "bitlen (n div 2)") simp_all
    with ih have "2 ^ bitlen (n div 2) \<le> n" by linarith
    with n show ?thesis by (subst bitlen.simps) simp
  qed
qed

lemma bitlen_pos: "0 < n \<Longrightarrow> 0 < bitlen n"
  by (subst bitlen.simps) simp

lemma pow2_Suc: "pow2 (k + 1) = 2 * pow2 k"
proof (cases "0 \<le> k")
  case True
  then show ?thesis by (simp add: pow2_def nat_add_distrib)
next
  case False
  then have "nat (- k) = Suc (nat (- (k + 1)))" by linarith
  with False show ?thesis by (simp add: pow2_def)
qed

lemma pow2_pos: "0 < pow2 k"
  by (simp add: pow2_def)

lemma expo_bounds:
  assumes "0 < a"
  shows "pow2 (expo a) \<le> a \<and> a < pow2 (expo a + 1)"
proof (cases "1 \<le> a")
  case True
  let ?n = "nat \<lfloor>a\<rfloor>"
  have n1: "0 < ?n" using True by linarith
  have e: "expo a = int (bitlen ?n) - 1" using True by (simp add: expo_def)
  have b: "0 < bitlen ?n" using n1 by (rule bitlen_pos)
  have p: "pow2 (expo a) = 2 ^ (bitlen ?n - 1)"
    using b by (simp add: e pow2_def nat_diff_distrib)
  have A: "(2::real) ^ (bitlen ?n - 1) \<le> real ?n"
    using bitlen_lower [OF n1] by (metis of_nat_le_iff of_nat_numeral of_nat_power)
  have B: "real ?n \<le> a" using True by linarith
  have lo: "pow2 (expo a) \<le> a" unfolding p using A B by linarith
  have "?n + 1 \<le> 2 ^ bitlen ?n" using bitlen_upper [of ?n] by linarith
  then have C: "real (?n + 1) \<le> (2::real) ^ bitlen ?n"
    by (metis of_nat_le_iff of_nat_numeral of_nat_power)
  have D: "a < real (?n + 1)" using True by linarith
  have q: "pow2 (expo a + 1) = 2 ^ bitlen ?n" by (simp add: e pow2_def)
  have hi: "a < pow2 (expo a + 1)" unfolding q using C D by linarith
  show ?thesis using lo hi by simp
next
  case False
  let ?y = "1 / a"
  let ?m = "nat (\<lceil>?y\<rceil> - 1)"
  let ?k = "bitlen ?m"
  have y1: "1 < ?y" using False assms by simp
  then have c2: "2 \<le> \<lceil>?y\<rceil>" by linarith
  then have m1: "0 < ?m" by linarith
  have e: "expo a = - int ?k" using False by (simp add: expo_def)
  have k: "0 < ?k" using m1 by (rule bitlen_pos)
  have "?m + 1 \<le> 2 ^ ?k" using bitlen_upper [of ?m] by linarith
  then have E: "real (?m + 1) \<le> (2::real) ^ ?k"
    by (metis of_nat_le_iff of_nat_numeral of_nat_power)
  have F: "?y \<le> real (?m + 1)" using c2 by linarith
  have yk: "?y \<le> 2 ^ ?k" using E F by linarith
  have G: "(2::real) ^ (?k - 1) \<le> real ?m"
    using bitlen_lower [OF m1] by (metis of_nat_le_iff of_nat_numeral of_nat_power)
  have H: "real ?m < ?y" using c2 by linarith
  have ky: "2 ^ (?k - 1) < ?y" using G H by linarith
  have lo: "pow2 (expo a) \<le> a"
  proof -
    have "1 / 2 ^ ?k \<le> a" using yk assms by (simp add: field_simps)
    moreover have "pow2 (expo a) = 1 / 2 ^ ?k" using k by (simp add: e pow2_def)
    ultimately show ?thesis by simp
  qed
  have hi: "a < pow2 (expo a + 1)"
  proof -
    have "a < 1 / 2 ^ (?k - 1)" using ky assms by (simp add: field_simps)
    moreover have "pow2 (expo a + 1) = 1 / 2 ^ (?k - 1)"
    proof (cases "?k = 1")
      case True
      then show ?thesis by (simp add: e pow2_def)
    next
      case False
      with k have "nat (int ?k - 1) = ?k - 1" "\<not> 0 \<le> - int ?k + 1" by linarith+
      then show ?thesis by (simp add: e pow2_def)
    qed
    ultimately show ?thesis by simp
  qed
  show ?thesis using lo hi by simp
qed

lemma rne_nearest: "\<bar>of_int (rne y) - y\<bar> \<le> 1 / 2"
  by (simp add: rne_def Let_def)

lemma pow2_powi: "pow2 k = 2 powi k"
  by (simp add: pow2_def power_int_def power_one_over inverse_eq_divide)

lemma pow2_add: "pow2 (j + k) = pow2 j * pow2 k"
  by (simp add: pow2_powi power_int_add)

lemma rne_floor: "\<lfloor>y\<rfloor> \<le> rne y \<and> rne y \<le> \<lfloor>y\<rfloor> + 1"
  by (simp add: rne_def Let_def)

lemma rne_of_int: "rne (of_int k) = k"
  by (simp add: rne_def)



lemma scaled_nearest:
  fixes u a x :: real
  assumes "0 < u" and "\<bar>x - a / u\<bar> \<le> 1 / 2"
  shows "\<bar>x * u - a\<bar> \<le> u / 2"
proof -
  have "x * u - a = (x - a / u) * u" using assms(1) by (simp add: left_diff_distrib)
  then have "\<bar>x * u - a\<bar> = \<bar>x - a / u\<bar> * u" using assms(1) by (simp add: abs_mult)
  also have "\<dots> \<le> 1 / 2 * u" using assms by (simp only: mult_le_cancel_right_pos)
  finally show ?thesis by simp
qed

text \<open>
  The rounded value of \<open>r \<noteq> 0\<close> is a multiple of the unit of its binade and lies within
  half a unit of \<open>r\<close>; in the normal range its significand has 53 bits.
\<close>

lemma round_to_double_nearest:
  assumes "r \<noteq> 0" and "round_to_double r = Finite v"
  shows "\<exists>m. v = of_int m * pow2 (max (expo \<bar>r\<bar>) (- 1022) - 52)
           \<and> \<bar>v - r\<bar> \<le> pow2 (max (expo \<bar>r\<bar>) (- 1022) - 52) / 2"
proof -
  define u where "u = pow2 (max (expo \<bar>r\<bar>) (- 1022) - 52)"
  define m where "m = rne (\<bar>r\<bar> / u)"
  have u: "0 < u" unfolding u_def by (rule pow2_pos)
  have "round_to_double r =
     (if pow2 1024 \<le> of_int m * u then (if 0 < r then PosInf else NegInf)
      else Finite (if 0 < r then of_int m * u else - (of_int m * u)))"
    unfolding round_to_double_def Let_def m_def u_def using assms(1) by (simp only: if_False)
  with assms(2) have v: "v = (if 0 < r then of_int m * u else - (of_int m * u))"
    by (cases "pow2 1024 \<le> of_int m * u"; cases "0 < r")
      (simp_all only: if_True if_False number.inject number.distinct)
  have "\<bar>of_int m - \<bar>r\<bar> / u\<bar> \<le> 1 / 2" unfolding m_def by (rule rne_nearest)
  from scaled_nearest [OF u this] have d: "\<bar>of_int m * u - \<bar>r\<bar>\<bar> \<le> u / 2" .
  show ?thesis
  proof (cases "0 < r")
    case True
    with v d have "v = of_int m * u" "\<bar>v - r\<bar> \<le> u / 2" by simp_all
    then show ?thesis unfolding u_def by blast
  next
    case False
    with v have v': "v = of_int (- m) * u" by simp
    have "v - r = - (of_int m * u - \<bar>r\<bar>)" using False v by simp
    then have "\<bar>v - r\<bar> = \<bar>of_int m * u - \<bar>r\<bar>\<bar>" by (simp only: abs_minus_cancel)
    with d have "\<bar>v - r\<bar> \<le> u / 2" by simp
    with v' show ?thesis unfolding u_def by blast
  qed
qed


lemma significand_53_bits:
  assumes "0 < a"
  shows "2 ^ 52 \<le> rne (a / pow2 (expo a - 52)) \<and> rne (a / pow2 (expo a - 52)) \<le> 2 ^ 53"
proof -
  define u where "u = pow2 (expo a - 52)"
  define y where "y = a / u"
  have u: "0 < u" unfolding u_def by (rule pow2_pos)
  have e1: "pow2 (expo a) = pow2 52 * u"
    unfolding u_def using pow2_add [of 52 "expo a - 52"] by simp
  have e2: "pow2 (expo a + 1) = pow2 53 * u"
    unfolding u_def using pow2_add [of 53 "expo a - 52"] by (simp add: add.commute)
  have b: "pow2 52 * u \<le> a" "a < pow2 53 * u"
    using expo_bounds [OF assms] unfolding e1 e2 by simp_all
  have lo: "pow2 52 \<le> y" unfolding y_def using b(1) u by (simp only: pos_le_divide_eq)
  have hi: "y < pow2 53" unfolding y_def using b(2) u by (simp only: pos_divide_less_eq)
  have p: "pow2 52 = of_int (2 ^ 52)" "pow2 53 = of_int (2 ^ 53)" by simp_all
  have f1: "(2 ^ 52 :: int) \<le> \<lfloor>y\<rfloor>" using lo unfolding p by (simp only: le_floor_iff)
  have f2: "\<lfloor>y\<rfloor> < (2 ^ 53 :: int)" using hi unfolding p by (simp only: floor_less_iff)
  have "2 ^ 52 \<le> rne y \<and> rne y \<le> 2 ^ 53" using f1 f2 rne_floor [of y] by linarith
  then show ?thesis unfolding y_def u_def .
qed


lemma expo_nonneg: "1 \<le> a \<Longrightarrow> 0 \<le> expo a"
proof -
  assume a: "1 \<le> a"
  then have "0 < nat \<lfloor>a\<rfloor>" by linarith
  then have "0 < bitlen (nat \<lfloor>a\<rfloor>)" by (rule bitlen_pos)
  with a show ?thesis by (simp add: expo_def)
qed

text \<open>Every integer up to \<open>2 ^ 53\<close> in magnitude is a double: rounding keeps it.\<close>

lemma round_to_double_integer:
  assumes "\<bar>n\<bar> \<le> 2 ^ 53"
  shows "round_to_double (of_int n) = Finite (of_int n)"
proof (cases "n = 0")
  case True
  then show ?thesis by (simp add: round_to_double_def)
next
  case False
  define a :: real where "a = of_int \<bar>n\<bar>"
  define e where "e = expo a"
  define u where "u = pow2 (e - 52)"
  have a1: "1 \<le> a" unfolding a_def using False by linarith
  have a53: "a \<le> pow2 53"
  proof -
    have "(of_int \<bar>n\<bar> :: real) \<le> of_int (2 ^ 53)" using assms by (simp only: of_int_le_iff)
    then show ?thesis unfolding a_def by simp
  qed
  have apos: "0 < a" using a1 by simp
  have e0: "0 \<le> e" unfolding e_def using a1 by (rule expo_nonneg)
  have eb: "pow2 e \<le> a" unfolding e_def using expo_bounds [OF apos] by simp
  have e53: "e \<le> 53"
  proof (rule ccontr)
    assume "\<not> e \<le> 53"
    then have "54 \<le> e" by simp
    define j where "j = e - 54"
    have j: "e = 54 + j" "0 \<le> j" unfolding j_def using \<open>54 \<le> e\<close> by simp_all
    have "pow2 e = pow2 54 * pow2 j" unfolding j(1) by (rule pow2_add)
    moreover have "1 \<le> pow2 j" using j(2) by (simp add: pow2_def)
    ultimately have "pow2 54 \<le> pow2 e" by simp
    with eb a53 have "pow2 54 \<le> pow2 53" by linarith
    then show False by simp
  qed
  have upos: "0 < u" unfolding u_def by (rule pow2_pos)
  have int_q: "\<exists>k::int. a / u = of_int k"
  proof (cases "e \<le> 52")
    case True
    have "u = 1 / 2 ^ nat (52 - e)"
    proof (cases "e = 52")
      case True
      then show ?thesis unfolding u_def by simp
    next
      case False
      with \<open>e \<le> 52\<close> have "\<not> 0 \<le> e - 52" "- (e - 52) = 52 - e" by simp_all
      then show ?thesis unfolding u_def pow2_def by (simp only: if_False)
    qed
    then have "a / u = a * 2 ^ nat (52 - e)" by simp
    also have "\<dots> = of_int (\<bar>n\<bar> * 2 ^ nat (52 - e))" unfolding a_def by simp
    finally show ?thesis by blast
  next
    case False
    with e53 have e: "e = 53" by simp
    then have u2: "u = 2" unfolding u_def by simp
    from eb e have "pow2 53 \<le> a" by simp
    with a53 have "a = pow2 53" by simp
    then have "a / u = of_int (2 ^ 52)" using u2 by simp
    then show ?thesis by blast
  qed
  then obtain k where k: "a / u = of_int k" by blast
  have m: "of_int (rne (a / u)) * u = a"
    unfolding k rne_of_int using k upos by (simp add: field_simps)
  have nov: "\<not> pow2 1024 \<le> a"
  proof -
    have "pow2 53 < pow2 1024" by simp
    with a53 show ?thesis by linarith
  qed
  have abs_n: "\<bar>(of_int n :: real)\<bar> = a" unfolding a_def by simp
  have "round_to_double (of_int n) =
     (if pow2 1024 \<le> of_int (rne (a / u)) * u then (if 0 < (of_int n :: real) then PosInf else NegInf)
      else Finite (if 0 < (of_int n :: real) then of_int (rne (a / u)) * u
                   else - (of_int (rne (a / u)) * u)))"
  proof -
    have z: "(of_int n :: real) \<noteq> 0" using False by simp
    have mx: "max (expo a) (- 1022) = e" unfolding e_def using e0 [unfolded e_def] by simp
    show ?thesis
      unfolding round_to_double_def Let_def abs_n mx u_def [symmetric] using z
      by (simp only: if_False)
  qed
  also have "\<dots> = Finite (if 0 < (of_int n :: real) then a else - a)"
    unfolding m using nov by (simp only: if_False)
  also have "(if 0 < (of_int n :: real) then a else - a) = of_int n"
    unfolding a_def by simp
  finally show ?thesis .
qed

section \<open>Spike detection: properties\<close>

lemma detectSpike_short: "length ss < 2 \<Longrightarrow> \<not> isSpike (detectSpike ss th)"
  by (simp add: detectSpike_def)

lemma feq_zero: "feq x (Finite 0) = (x = Finite 0)"
  by (auto simp: feq_def)

text \<open>
  Claim C5, as amended. For every history with at least 2 snapshots, \<open>averageCount\<close> is the
  mean of \<open>count\<close> over all snapshots except the most recent one and \<open>currentCount\<close> is the
  most recent count. When that average is not zero, \<open>percentageIncrease\<close> is
  \<open>(current - average) / average * 100\<close>, \<open>isSpike\<close> compares it with the threshold
  (300 when omitted) and the severity follows the tiers 500, 400, 300; when the average is
  zero, \<open>percentageIncrease\<close> is the constant 100. The sum of the mean, its division and
  the three operations of the formula are the operations of the code on doubles, each one
  rounded.
\<close>

theorem detectSpike_average_and_increase:
  assumes "2 \<le> length ss"
  shows "averageCount (detectSpike ss th)
           = fdiv (sum_numbers (map count_v (butlast ss))) (of_len (length (butlast ss)))
       \<and> currentCount (detectSpike ss th) = count_v (last ss)
       \<and> (averageCount (detectSpike ss th) \<noteq> Finite 0 \<longrightarrow>
            percentageIncrease (detectSpike ss th)
              = fmul (fdiv (fsub (currentCount (detectSpike ss th))
                                 (averageCount (detectSpike ss th)))
                           (averageCount (detectSpike ss th)))
                     (Finite 100)
            \<and> isSpike (detectSpike ss th)
              = fge (percentageIncrease (detectSpike ss th))
                    (case th of None \<Rightarrow> Finite 300 | Some t \<Rightarrow> t)
            \<and> severity (detectSpike ss th)
              = (if fge (percentageIncrease (detectSpike ss th)) (Finite 500) then critical
                 else if fge (percentageIncrease (detectSpike ss th)) (Finite 400) then high
                 else if fge (percentageIncrease (detectSpike ss th)) (Finite 300) then medium
                 else low))
       \<and> (averageCount (detectSpike ss th) = Finite 0 \<longrightarrow>
            percentageIncrease (detectSpike ss th) = Finite 100)"
  using assms by (simp add: detectSpike_def Let_def feq_zero)

text \<open>
  The history \<open>[10, 10, 10, 40]\<close>, where every operation is exact, and the history
  \<open>[7, 0, 0, 14]\<close>, where the mean \<open>7 / 3\<close> is rounded: the code reports
  \<open>2.3333333333333335\<close> and \<open>499.9999999999999\<close>, below the tier of 500.
\<close>

theorem detectSpike_average_and_increase_witness:
  "averageCount (detectSpike (map snap [10, 10, 10, 40]) None) = Finite 10
   \<and> percentageIncrease (detectSpike (map snap [10, 10, 10, 40]) None) = Finite 300
   \<and> severity (detectSpike (map snap [10, 10, 10, 40]) None) = medium
   \<and> isSpike (detectSpike (map snap [10, 10, 10, 40]) None)
   \<and> averageCount (detectSpike (map snap [7, 0, 0, 14]) None)
       = Finite (5254199565265579 / 2251799813685248)
   \<and> percentageIncrease (detectSpike (map snap [7, 0, 0, 14]) None)
       = Finite (4398046511103999 / 8796093022208)
   \<and> severity (detectSpike (map snap [7, 0, 0, 14]) None) = high
   \<and> \<not> isSpike (detectSpike (map snap [7, 0, 0, 14]) (Some (Finite 500)))"
proof -
  let ?r = "detectSpike (map snap [10, 10, 10, 40]) None"
  let ?s = "detectSpike (map snap [7, 0, 0, 14]) None"
  let ?t = "detectSpike (map snap [7, 0, 0, 14]) (Some (Finite 500))"
  have len: "2 \<le> length (map snap [10, 10, 10, 40])" "2 \<le> length (map snap [7, 0, 0, 14])"
    by simp_all
  note h = detectSpike_average_and_increase [OF len(1), of None]
  note g = detectSpike_average_and_increase [OF len(2), of None]
  note k = detectSpike_average_and_increase [OF len(2), of "Some (Finite 500)"]
  have a: "averageCount ?r = Finite 10"
    using h by (simp add: snap_def sum_numbers_def double_eval)
  have c: "currentCount ?r = Finite 40" using h by (simp add: snap_def)
  have p: "percentageIncrease ?r = Finite 300" using h a c by (simp add: double_eval)
  have s: "severity ?r = medium" using h a p by (simp add: double_eval)
  have i: "isSpike ?r" using h a p by (simp add: double_eval)
  have a': "averageCount ?s = Finite (5254199565265579 / 2251799813685248)"
    using g by (simp add: snap_def sum_numbers_def double_eval)
  have c': "currentCount ?s = Finite 14" using g by (simp add: snap_def)
  have p': "percentageIncrease ?s = Finite (4398046511103999 / 8796093022208)"
    using g a' c' by (simp add: double_eval)
  have s': "severity ?s = high" using g a' p' by (simp add: double_eval)
  have a'': "averageCount ?t = Finite (5254199565265579 / 2251799813685248)"
    using k by (simp add: snap_def sum_numbers_def double_eval)
  have c'': "currentCount ?t = Finite 14" using k by (simp add: snap_def)
  have p'': "percentageIncrease ?t = Finite (4398046511103999 / 8796093022208)"
    using k a'' c'' by (simp add: double_eval)
  have i'': "\<not> isSpike ?t" using k a'' p'' by (simp add: double_eval)
  show ?thesis using a p s i a' p' s' i'' by simp
qed

text \<open>
  The history \<open>[0, 20]\<close>: the average of the previous counts is zero and the reported
  increase is 100, while \<open>(current - average) / average * 100\<close> is \<open>Infinity\<close> on doubles
  and has no value in exact arithmetic: the product of the reported increase with the
  average is not \<open>(current - average) * 100\<close>.
\<close>

theorem detectSpike_zero_average_increase:
  "averageCount (detectSpike (map snap [0, 20]) None) = Finite 0
   \<and> currentCount (detectSpike (map snap [0, 20]) None) = Finite 20
   \<and> percentageIncrease (detectSpike (map snap [0, 20]) None) = Finite 100
   \<and> fmul (fdiv (fsub (currentCount (detectSpike (map snap [0, 20]) None))
                      (averageCount (detectSpike (map snap [0, 20]) None)))
                (averageCount (detectSpike (map snap [0, 20]) None)))
          (Finite 100) = PosInf
   \<and> percentageIncrease (detectSpike (map snap [0, 20]) None)
       \<noteq> fmul (fdiv (fsub (currentCount (detectSpike (map snap [0, 20]) None))
                         (averageCount (detectSpike (map snap [0, 20]) None)))
                   (averageCount (detectSpike (map snap [0, 20]) None)))
             (Finite 100)
   \<and> (100 :: real) * 0 \<noteq> (20 - 0) * 100"
proof -
  have r: "detectSpike (map snap [0, 20]) None
      = \<lparr> isSpike = True, severity = low, percentageIncrease = Finite 100,
          currentCount = Finite 20, averageCount = Finite 0 \<rparr>"
    by (simp add: detectSpike_def snap_def sum_numbers_def double_eval)
  show ?thesis unfolding r by (simp add: double_eval)
qed

text \<open>
  Claim C7. For every history with at least 2 snapshots whose average over the snapshots
  before the current one is 0, the result follows the absolute count: \<open>isSpike\<close> holds iff
  the current count exceeds 10, and the severity is high above 50, medium above 20 and low
  otherwise. (The branch reports the constant 100 as \<open>percentageIncrease\<close> and never
  divides by the average.)
\<close>

theorem detectSpike_zero_average_heuristic:
  assumes "2 \<le> length ss"
    and "fdiv (sum_numbers (map count_v (butlast ss))) (of_len (length (butlast ss))) = Finite 0"
  shows "isSpike (detectSpike ss th) = fgt (count_v (last ss)) (Finite 10)
       \<and> severity (detectSpike ss th) =
           (if fgt (count_v (last ss)) (Finite 50) then high
            else if fgt (count_v (last ss)) (Finite 20) then medium else low)
       \<and> percentageIncrease (detectSpike ss th) = Finite 100
       \<and> averageCount (detectSpike ss th) = Finite 0
       \<and> currentCount (detectSpike ss th) = count_v (last ss)"
  using assms by (simp add: detectSpike_def Let_def feq_zero)

theorem detectSpike_zero_average_heuristic_witness:
  "isSpike (detectSpike (map snap [0, 0, 15]) None)
   \<and> severity (detectSpike (map snap [0, 0, 15]) None) = low
   \<and> \<not> isSpike (detectSpike (map snap [0, 0, 10]) None)
   \<and> severity (detectSpike (map snap [0, 60]) (Some (Finite 300))) = high
   \<and> severity (detectSpike (map snap [0, 21]) (Some (Finite 300))) = medium"
proof -
  have z2: "fdiv (sum_numbers (map count_v (butlast (map snap [0, 0, c])))) 
              (of_len (length (butlast (map snap [0, 0, c])))) = Finite 0" for c
    by (simp add: snap_def sum_numbers_def double_eval)
  have z1: "fdiv (sum_numbers (map count_v (butlast (map snap [0, c]))))
              (of_len (length (butlast (map snap [0, c])))) = Finite 0" for c
    by (simp add: snap_def sum_numbers_def double_eval)
  have l2: "2 \<le> length (map snap [0, 0, c])" and l1: "2 \<le> length (map snap [0, c])" for c
    by simp_all
  show ?thesis
    using detectSpike_zero_average_heuristic [OF l2 z2, of 15 None]
      detectSpike_zero_average_heuristic [OF l2 z2, of 10 None]
      detectSpike_zero_average_heuristic [OF l1 z1, of 60 "Some (Finite 300)"]
      detectSpike_zero_average_heuristic [OF l1 z1, of 21 "Some (Finite 300)"]
    by (simp add: snap_def double_eval)
qed

section \<open>Condition evaluation: properties\<close>









text \<open>
  Claim C10. For every condition whose threshold is 0 or absent, evaluation uses the default
  of its kind in place of the configured value: 300 for \<open>velocity_spike\<close>, 0.5 for
  \<open>sentiment_shift\<close>, and a minimum count of 5 for \<open>category_match\<close>, which therefore
  still needs 5 matching items among the first 20.
\<close>

theorem zero_threshold_uses_default:
  assumes "threshold c = None \<or> threshold c = Some (Finite 0)"
  shows "(type_c c = velocity_spike \<longrightarrow>
            evaluateCondition lc c ctx
              = isSpike (detectSpike (snapshots ctx) (Some (Finite 300))))
       \<and> (type_c c = sentiment_shift \<longrightarrow>
            evaluateCondition lc c ctx =
              (10 \<le> length (tweets ctx)
               \<and> fge (fabs (fdiv (sentiment_sum (take 20 (tweets ctx)))
                                 (of_len (length (take 20 (tweets ctx))))))
                      (Finite (1 / 2))))
       \<and> (type_c c = category_match \<longrightarrow>
            evaluateCondition lc c ctx =
              (case categories c of
                 None \<Rightarrow> False
               | Some cats \<Rightarrow> cats \<noteq> [] \<and> 5 \<le> matchCount cats (take 20 (tweets ctx))))"
  using assms
  by (auto simp: evaluateCondition_def Let_def or_default_def num_or_def fge_def fle_def
      of_len_def split: option.splits)

theorem zero_threshold_uses_default_witness:
  "\<not> evaluateCondition toLowerCase_ascii (breaking_condition (Some (Finite 0)))
       (tweets_context (replicate 4 (plain_tweet None (Some breaking_news))))
   \<and> evaluateCondition toLowerCase_ascii (breaking_condition (Some (Finite 0)))
       (tweets_context (replicate 5 (plain_tweet None (Some breaking_news))))
   \<and> \<not> evaluateCondition toLowerCase_ascii (breaking_condition None)
       (tweets_context (replicate 4 (plain_tweet None (Some breaking_news))))"
proof -
  have z: "threshold (breaking_condition (Some (Finite 0))) = None
           \<or> threshold (breaking_condition (Some (Finite 0))) = Some (Finite 0)"
    by (simp add: breaking_condition_def)
  have n: "threshold (breaking_condition None) = None
           \<or> threshold (breaking_condition None) = Some (Finite 0)"
    by (simp add: breaking_condition_def)
  have k: "type_c (breaking_condition v) = category_match"
          "categories (breaking_condition v) = Some [breaking_news]" for v
    by (simp_all add: breaking_condition_def)
  have m: "matchCount [breaking_news] (replicate j (plain_tweet None (Some breaking_news))) = j"
    for j
    by (simp add: matchCount_def plain_tweet_def)
  show ?thesis
    using zero_threshold_uses_default [OF z, of toLowerCase_ascii
        "tweets_context (replicate 4 (plain_tweet None (Some breaking_news)))"]
      zero_threshold_uses_default [OF z, of toLowerCase_ascii
        "tweets_context (replicate 5 (plain_tweet None (Some breaking_news)))"]
      zero_threshold_uses_default [OF n, of toLowerCase_ascii
        "tweets_context (replicate 4 (plain_tweet None (Some breaking_news)))"]
    by (simp add: k m tweets_context_def)
qed

section \<open>Dispatch: properties\<close>

lemma executeAction_trace:
  "events (snd (executeAction w act d))
     = events w @ (case action_event act d of None \<Rightarrow> [] | Some ev \<Rightarrow> [ev])"
  by (simp add: executeAction_def sendDiscordWebhook_def action_event_def Let_def
      split: ActionType.splits option.splits)

lemma executeActions_trace:
  "events (snd (executeActions w as d))
     = events w @ List.map_filter (\<lambda>act. action_event act d) as"
proof (induction as arbitrary: w)
  case Nil
  then show ?case by (simp add: List.map_filter_simps)
next
  case (Cons a as)
  show ?case
    using Cons.IH [of "snd (executeAction w a d)"] executeAction_trace [of w a d]
    by (simp add: split_beta Let_def List.map_filter_simps split: option.splits)
qed

lemma executeActions_length: "length (fst (executeActions w as d)) = length as"
  by (induction as arbitrary: w) (auto simp: split_beta Let_def)

lemma executeAction_local: "type_a act \<noteq> discord_webhook \<Longrightarrow> fst (executeAction w act d)"
  by (simp add: executeAction_def split: ActionType.splits)

lemma executeActions_nth:
  "i < length as \<Longrightarrow> type_a (as ! i) \<noteq> discord_webhook \<Longrightarrow> fst (executeActions w as d) ! i"
proof (induction as arbitrary: w i)
  case Nil
  then show ?case by simp
next
  case (Cons a as)
  show ?case
  proof (cases i)
    case 0
    with Cons.prems show ?thesis by (simp add: split_beta Let_def executeAction_local)
  next
    case (Suc j)
    with Cons.prems Cons.IH [of j "snd (executeAction w a d)"] show ?thesis
      by (simp add: split_beta Let_def)
  qed
qed

lemma action_event_data: "action_event act d = Some ev \<Longrightarrow> event_data ev = d"
  by (auto simp: action_event_def split: ActionType.splits option.splits if_splits)

lemma triggerAlert_events:
  assumes "triggerAlert w a ctx = (r, w')"
  shows "\<exists>new. events w' = events w @ new \<and> (\<forall>ev\<in>set new. alert (event_data ev) = a)"
proof -
  let ?d = "triggerData_of w a ctx"
  let ?new = "List.map_filter (\<lambda>act. action_event act ?d) (actions a)"
  have "w' = snd (executeActions w (actions a) ?d)"
    using assms by (auto simp: triggerAlert_def split_beta)
  then have "events w' = events w @ ?new" by (simp add: executeActions_trace)
  moreover have "\<forall>ev\<in>set ?new. event_data ev = ?d"
    by (auto simp: List.map_filter_def dest: action_event_data)
  moreover have "alert ?d = a" by (simp add: triggerData_of_def)
  ultimately show ?thesis by auto
qed

text \<open>
  Claim C6. Dispatch runs every configured action: there is one result per action, and the
  trace grows by the effect of each action, in the order of the list, whatever the results
  of the other actions. An in-app or email action reports success wherever it stands in the
  list, and the overall result is true iff at least one action reports success.
\<close>

theorem triggerAlert_any_success:
  "length (fst (executeActions w (actions a) d)) = length (actions a)
   \<and> events (snd (executeActions w (actions a) d))
       = events w @ List.map_filter (\<lambda>act. action_event act d) (actions a)
   \<and> (\<forall>i < length (actions a). type_a (actions a ! i) \<noteq> discord_webhook
         \<longrightarrow> fst (executeActions w (actions a) d) ! i)
   \<and> fst (triggerAlert w a ctx)
       = (True \<in> set (fst (executeActions w (actions a) (triggerData_of w a ctx))))
   \<and> snd (triggerAlert w a ctx)
       = snd (executeActions w (actions a) (triggerData_of w a ctx))"
proof -
  have "fst (triggerAlert w a ctx)
       = (True \<in> set (fst (executeActions w (actions a) (triggerData_of w a ctx))))"
    by (auto simp: triggerAlert_def split_beta list_ex_iff)
  moreover have "snd (triggerAlert w a ctx)
       = snd (executeActions w (actions a) (triggerData_of w a ctx))"
    by (simp add: triggerAlert_def split_beta)
  ultimately show ?thesis
    using executeActions_length executeActions_trace executeActions_nth by blast
qed

text \<open>
  One webhook action whose fetch throws, then one in-app action: the results are
  \<open>[False, True]\<close>, both effects are in the trace, and the dispatch reports \<open>True\<close>.
\<close>

theorem triggerAlert_any_success_witness:
  "fst (executeActions offline_world (actions mixed_alert)
         (triggerData_of offline_world mixed_alert spike_context)) = [False, True]
   \<and> fst (triggerAlert offline_world mixed_alert spike_context)
   \<and> events (snd (triggerAlert offline_world mixed_alert spike_context))
       = [WebhookPost ''https://discord.example/hook''
            (triggerData_of offline_world mixed_alert spike_context),
          InAppLog (triggerData_of offline_world mixed_alert spike_context)]"
proof -
  let ?d = "triggerData_of offline_world mixed_alert spike_context"
  note h = triggerAlert_any_success [of offline_world mixed_alert ?d spike_context]
  have acts: "actions mixed_alert = [webhook_action, in_app_action]"
    by (simp add: mixed_alert_def example_alert_def)
  have rs: "fst (executeActions offline_world (actions mixed_alert) ?d) = [False, True]"
    by (simp add: acts executeAction_def sendDiscordWebhook_def webhook_action_def
        in_app_action_def offline_world_def split_beta)
  have ev: "List.map_filter (\<lambda>act. action_event act ?d) (actions mixed_alert)
      = [WebhookPost ''https://discord.example/hook'' ?d, InAppLog ?d]"
    by (simp add: acts List.map_filter_simps action_event_def webhook_action_def
        in_app_action_def)
  have w0: "events offline_world = []" by (simp add: offline_world_def)
  show ?thesis using h rs ev w0 by simp
qed

section \<open>Alert engine: properties\<close>

lemma evaluateAlert_enabled: "evaluateAlert lc a ctx \<Longrightarrow> enabled a"
  by (simp add: evaluateAlert_def split: if_splits)

lemma evaluateAlert_no_conditions: "enabled a \<Longrightarrow> conditions a = [] \<Longrightarrow> evaluateAlert lc a ctx"
  by (simp add: evaluateAlert_def)

lemma checkAlerts_loop_events:
  "checkAlerts_loop lc w ctx as acc = (t, w') \<Longrightarrow>
     \<exists>new. events w' = events w @ new \<and> (\<forall>ev\<in>set new. enabled (alert (event_data ev)))"
proof (induction as arbitrary: w acc t w')
  case Nil
  then show ?case by simp
next
  case (Cons a as)
  show ?case
  proof (cases "evaluateAlert lc a ctx")
    case False
    with Cons.prems have "checkAlerts_loop lc w ctx as acc = (t, w')" by simp
    from Cons.IH [OF this] show ?thesis .
  next
    case True
    obtain s w1 where tr: "triggerAlert w a ctx = (s, w1)" by (cases "triggerAlert w a ctx")
    with True Cons.prems
    have "checkAlerts_loop lc w1 ctx as (if s then acc @ [a] else acc) = (t, w')" by simp
    from Cons.IH [OF this] obtain n2 where
      n2: "events w' = events w1 @ n2" "\<forall>ev\<in>set n2. enabled (alert (event_data ev))" by blast
    from triggerAlert_events [OF tr] obtain n1 where
      n1: "events w1 = events w @ n1" "\<forall>ev\<in>set n1. alert (event_data ev) = a" by blast
    have "events w' = events w @ (n1 @ n2)" using n1 n2 by simp
    moreover have "\<forall>ev\<in>set (n1 @ n2). enabled (alert (event_data ev))"
      using n1 n2 evaluateAlert_enabled [OF True] by auto
    ultimately show ?thesis by blast
  qed
qed

lemma checkAlerts_loop_acc:
  "fst (checkAlerts_loop lc w ctx as acc) = acc @ fst (checkAlerts_loop lc w ctx as [])
   \<and> snd (checkAlerts_loop lc w ctx as acc) = snd (checkAlerts_loop lc w ctx as [])"
proof (induction as arbitrary: w acc)
  case Nil
  then show ?case by simp
next
  case (Cons a as)
  show ?case
  proof (cases "evaluateAlert lc a ctx")
    case False
    then show ?thesis using Cons.IH [of w acc] by simp
  next
    case True
    obtain s w1 where tr: "triggerAlert w a ctx = (s, w1)" by (cases "triggerAlert w a ctx")
    show ?thesis
      using True tr Cons.IH [of w1 "acc @ [a]"] Cons.IH [of w1 "[a]"] Cons.IH [of w1 acc]
      by simp
  qed
qed

lemma checkAlerts_loop_members:
  "checkAlerts_loop lc w ctx as acc = (t, w') \<Longrightarrow> a \<in> set t \<Longrightarrow>
     a \<in> set acc \<or> (a \<in> set as \<and> evaluateAlert lc a ctx)"
proof (induction as arbitrary: w acc t w')
  case Nil
  then show ?case by simp
next
  case (Cons b as)
  show ?case
  proof (cases "evaluateAlert lc b ctx")
    case False
    with Cons.prems have "checkAlerts_loop lc w ctx as acc = (t, w')" by simp
    from Cons.IH [OF this Cons.prems(2)] show ?thesis by auto
  next
    case True
    obtain s w1 where tr: "triggerAlert w b ctx = (s, w1)" by (cases "triggerAlert w b ctx")
    with True Cons.prems
    have "checkAlerts_loop lc w1 ctx as (if s then acc @ [b] else acc) = (t, w')" by simp
    from Cons.IH [OF this Cons.prems(2)] show ?thesis using True by (auto split: if_splits)
  qed
qed

lemma checkAlerts_engine: "fst (snd (checkAlerts lc w e)) = e"
  by (simp add: checkAlerts_def split_beta)

lemma updateContext_alerts: "alerts (updateContext e p) = alerts e"
  by (simp add: updateContext_def)

lemma fold_updateContext_alerts: "alerts (fold (\<lambda>p e. updateContext e p) ps e) = alerts e"
  by (induction ps arbitrary: e) (simp_all add: updateContext_alerts)

lemma run_ticks_inv:
  "run_ticks lc w e ps = (ts, e', w') \<Longrightarrow>
     e' = fold (\<lambda>p e. updateContext e p) ps e
     \<and> (\<forall>t\<in>set ts. \<forall>b\<in>set t. enabled b)
     \<and> (\<exists>new. events w' = events w @ new
            \<and> (\<forall>ev\<in>set new. enabled (alert (event_data ev))))"
proof (induction ps arbitrary: w e ts e' w')
  case Nil
  then show ?case by simp
next
  case (Cons p ps)
  let ?e = "updateContext e p"
  obtain t w1 where l: "checkAlerts_loop lc w (context_e ?e) (alerts ?e) [] = (t, w1)"
    by (cases "checkAlerts_loop lc w (context_e ?e) (alerts ?e) []")
  then have c: "checkAlerts lc w ?e = (t, ?e, w1)"
    by (simp add: checkAlerts_def)
  obtain rest e2 w2 where r: "run_ticks lc w1 ?e ps = (rest, e2, w2)"
    by (cases "run_ticks lc w1 ?e ps") auto
  from Cons.prems c r have eqs: "ts = t # rest" "e' = e2" "w' = w2" by simp_all
  from Cons.IH [OF r] obtain n2 where
    ih: "e2 = fold (\<lambda>p e. updateContext e p) ps ?e"
        "\<forall>t\<in>set rest. \<forall>b\<in>set t. enabled b"
        "events w2 = events w1 @ n2" "\<forall>ev\<in>set n2. enabled (alert (event_data ev))" by blast
  from checkAlerts_loop_events [OF l] obtain n1 where
    n1: "events w1 = events w @ n1" "\<forall>ev\<in>set n1. enabled (alert (event_data ev))" by blast
  have m: "\<forall>b\<in>set t. enabled b"
    using checkAlerts_loop_members [OF l] evaluateAlert_enabled by fastforce
  have "events w' = events w @ (n1 @ n2)" using eqs n1 ih by simp
  moreover have "\<forall>ev\<in>set (n1 @ n2). enabled (alert (event_data ev))" using n1 ih by auto
  ultimately have "\<exists>new. events w' = events w @ new
      \<and> (\<forall>ev\<in>set new. enabled (alert (event_data ev)))"
    by blast
  then show ?case using eqs ih m by simp
qed

lemma spike_condition_holds: "evaluateCondition toLowerCase_ascii spike_condition spike_context"
  by (simp add: evaluateCondition_def spike_condition_def spike_context_def detectSpike_def
      or_default_def snap_def sum_numbers_def double_eval)

lemma example_engine_context: "context_e (example_engine as) = spike_context"
  by (simp add: example_engine_def updateContext_def setAlerts_def new_AlertEngine_def
      spike_context_def spike_update_def)

lemma example_engine_alerts: "alerts (example_engine as) = as"
  by (simp add: example_engine_def updateContext_def setAlerts_def new_AlertEngine_def)

lemma example_engine_update: "updateContext (example_engine as) spike_update = example_engine as"
  by (simp add: example_engine_def updateContext_def setAlerts_def new_AlertEngine_def
      spike_update_def)

lemma example_engine_set: "(example_engine bs)\<lparr>alerts := as\<rparr> = example_engine as"
  by (simp add: example_engine_def updateContext_def setAlerts_def new_AlertEngine_def
      spike_update_def)

lemma mixed_alert_evaluates: "evaluateAlert toLowerCase_ascii mixed_alert spike_context"
  by (simp add: evaluateAlert_def mixed_alert_def example_alert_def spike_condition_holds)

lemma mixed_alert_dispatch: "fst (triggerAlert offline_world mixed_alert spike_context)"
  by (simp add: triggerAlert_def mixed_alert_def example_alert_def executeAction_def
      sendDiscordWebhook_def webhook_action_def in_app_action_def offline_world_def split_beta)

lemma checkAlerts_no_alerts: "fst (checkAlerts toLowerCase_ascii w (example_engine [])) = []"
  by (simp add: checkAlerts_def example_engine_alerts)

text \<open>
  Claim C2, as amended. A tick leaves the engine as it was: no alert record is written, so
  \<open>triggerCount\<close> and \<open>lastTriggeredAt\<close> of every alert stay what they were. What a tick
  does for an alert that triggers and has at least one successful action is to put it,
  unchanged, in the list that the tick returns; an alert that does not trigger, or whose
  dispatch wholly fails, is not put in the list.
\<close>

theorem checkAlerts_reports_without_update:
  "fst (snd (checkAlerts lc w e)) = e
   \<and> (\<forall>a\<in>set (fst (checkAlerts lc w e)). a \<in> set (alerts e) \<and> evaluateAlert lc a (context_e e))
   \<and> fst (checkAlerts lc w (e\<lparr>alerts := a # as\<rparr>))
       = (if evaluateAlert lc a (context_e e) \<and> fst (triggerAlert w a (context_e e))
          then [a] else [])
         @ fst (checkAlerts lc
                 (if evaluateAlert lc a (context_e e)
                  then snd (triggerAlert w a (context_e e)) else w)
                 (e\<lparr>alerts := as\<rparr>))"
proof -
  have 1: "fst (snd (checkAlerts lc w e)) = e" by (rule checkAlerts_engine)
  have 2: "\<forall>a\<in>set (fst (checkAlerts lc w e)). a \<in> set (alerts e) \<and> evaluateAlert lc a (context_e e)"
  proof
    fix b assume b: "b \<in> set (fst (checkAlerts lc w e))"
    obtain t w1 where l: "checkAlerts_loop lc w (context_e e) (alerts e) [] = (t, w1)"
      by (cases "checkAlerts_loop lc w (context_e e) (alerts e) []")
    then have "fst (checkAlerts lc w e) = t" by (simp add: checkAlerts_def)
    with b checkAlerts_loop_members [OF l, of b]
    show "b \<in> set (alerts e) \<and> evaluateAlert lc b (context_e e)" by simp
  qed
  have 3: "fst (checkAlerts lc w (e\<lparr>alerts := a # as\<rparr>))
       = (if evaluateAlert lc a (context_e e) \<and> fst (triggerAlert w a (context_e e))
          then [a] else [])
         @ fst (checkAlerts lc
                 (if evaluateAlert lc a (context_e e)
                  then snd (triggerAlert w a (context_e e)) else w)
                 (e\<lparr>alerts := as\<rparr>))"
    using checkAlerts_loop_acc [of lc "snd (triggerAlert w a (context_e e))" "context_e e" as "[a]"]
    by (simp add: checkAlerts_def split_beta)
  show ?thesis using 1 2 3 by blast
qed

theorem checkAlerts_reports_without_update_witness:
  "fst (checkAlerts toLowerCase_ascii offline_world (example_engine [mixed_alert])) = [mixed_alert]
   \<and> fst (snd (checkAlerts toLowerCase_ascii offline_world (example_engine [mixed_alert])))
       = example_engine [mixed_alert]
   \<and> map triggerCount (fst (checkAlerts toLowerCase_ascii offline_world (example_engine [mixed_alert]))) = [0]"
proof -
  note h = checkAlerts_reports_without_update
      [of toLowerCase_ascii offline_world "example_engine []" mixed_alert "[]"]
  note g = checkAlerts_reports_without_update
      [of toLowerCase_ascii offline_world "example_engine [mixed_alert]" mixed_alert "[]"]
  have 1: "fst (checkAlerts toLowerCase_ascii offline_world (example_engine [mixed_alert])) = [mixed_alert]"
    using h
    by (simp add: example_engine_set example_engine_context mixed_alert_evaluates
        mixed_alert_dispatch checkAlerts_no_alerts)
  have 2: "fst (snd (checkAlerts toLowerCase_ascii offline_world (example_engine [mixed_alert])))
       = example_engine [mixed_alert]"
    using g by simp
  have 3: "triggerCount mixed_alert = 0" by (simp add: mixed_alert_def example_alert_def)
  show ?thesis using 1 2 3 by simp
qed

text \<open>
  The alert of the example triggers on the spike and its in-app action succeeds, so the tick
  returns it; after the tick its record in the engine still has \<open>triggerCount = 0\<close>, not 1,
  and no \<open>lastTriggeredAt\<close>.
\<close>

theorem triggerCount_not_incremented:
  "evaluateAlert toLowerCase_ascii mixed_alert (context_e (example_engine [mixed_alert]))
   \<and> fst (triggerAlert offline_world mixed_alert (context_e (example_engine [mixed_alert])))
   \<and> fst (checkAlerts toLowerCase_ascii offline_world (example_engine [mixed_alert])) = [mixed_alert]
   \<and> map triggerCount (alerts (example_engine [mixed_alert])) = [0]
   \<and> map triggerCount (alerts (fst (snd (checkAlerts toLowerCase_ascii offline_world (example_engine [mixed_alert])))))
       = [0]
   \<and> map triggerCount (alerts (fst (snd (checkAlerts toLowerCase_ascii offline_world (example_engine [mixed_alert])))))
       \<noteq> map (\<lambda>a. triggerCount a + 1) (alerts (example_engine [mixed_alert]))
   \<and> map lastTriggeredAt
         (alerts (fst (snd (checkAlerts toLowerCase_ascii offline_world (example_engine [mixed_alert]))))) = [None]"
proof -
  have c: "checkAlerts toLowerCase_ascii offline_world (example_engine [mixed_alert])
      = ([mixed_alert], example_engine [mixed_alert],
         snd (triggerAlert offline_world mixed_alert spike_context))"
    by (simp add: checkAlerts_def example_engine_context example_engine_alerts
        mixed_alert_evaluates mixed_alert_dispatch split_beta)
  have f: "triggerCount mixed_alert = 0" "lastTriggeredAt mixed_alert = None"
    by (simp_all add: mixed_alert_def example_alert_def)
  show ?thesis
    by (simp add: c example_engine_context example_engine_alerts mixed_alert_evaluates
        mixed_alert_dispatch f)
qed

text \<open>
  Claim C9. An alert with \<open>enabled = False\<close> evaluates to false in every context, also one
  whose conditions all hold. Over any run of ticks, each with its own refreshed context, no
  tick returns it, no effect of the run carries it, and the engine keeps its alerts as they
  were, so its \<open>triggerCount\<close> stays what it was.
\<close>

theorem disabled_alert_never_dispatches:
  assumes "\<not> enabled a" and "run_ticks lc w e ps = (ts, e', w')"
  shows "(\<forall>ctx. \<not> evaluateAlert lc a ctx)
       \<and> alerts e' = alerts e
       \<and> (\<forall>t\<in>set ts. a \<notin> set t)
       \<and> (\<exists>new. events w' = events w @ new \<and> (\<forall>ev\<in>set new. alert (event_data ev) \<noteq> a))"
proof -
  from run_ticks_inv [OF assms(2)] obtain new where
    h: "e' = fold (\<lambda>p e. updateContext e p) ps e" "\<forall>t\<in>set ts. \<forall>b\<in>set t. enabled b"
       "events w' = events w @ new" "\<forall>ev\<in>set new. enabled (alert (event_data ev))" by blast
  have 1: "\<forall>ctx. \<not> evaluateAlert lc a ctx" using assms(1) by (simp add: evaluateAlert_def)
  have 2: "alerts e' = alerts e" using h(1) by (simp add: fold_updateContext_alerts)
  have 3: "\<forall>t\<in>set ts. a \<notin> set t" using h(2) assms(1) by blast
  have "\<forall>ev\<in>set new. alert (event_data ev) \<noteq> a" using h(4) assms(1) by blast
  with h(3) have 4: "\<exists>new. events w' = events w @ new
      \<and> (\<forall>ev\<in>set new. alert (event_data ev) \<noteq> a)"
    by blast
  show ?thesis using 1 2 3 4 by blast
qed

text \<open>
  Two ticks on a context where the spike condition of the disabled alert holds.
\<close>

theorem disabled_alert_never_dispatches_witness:
  "evaluateCondition toLowerCase_ascii spike_condition spike_context
   \<and> \<not> evaluateAlert toLowerCase_ascii disabled_alert spike_context
   \<and> disabled_alert \<notin> set (concat (fst (run_ticks toLowerCase_ascii offline_world
         (example_engine [disabled_alert]) [spike_update, spike_update])))
   \<and> map triggerCount (alerts (fst (snd (run_ticks toLowerCase_ascii offline_world
         (example_engine [disabled_alert]) [spike_update, spike_update])))) = [0]"
proof -
  let ?r = "run_ticks toLowerCase_ascii offline_world (example_engine [disabled_alert]) [spike_update, spike_update]"
  have d: "\<not> enabled disabled_alert" by (simp add: disabled_alert_def example_alert_def)
  have r: "?r = (fst ?r, fst (snd ?r), snd (snd ?r))" by simp
  note h = disabled_alert_never_dispatches [OF d r]
  have 1: "\<not> evaluateAlert toLowerCase_ascii disabled_alert spike_context" using h by blast
  have 2: "disabled_alert \<notin> set (concat (fst ?r))" using h by auto
  have "alerts (fst (snd ?r)) = [disabled_alert]"
    using h by (simp add: example_engine_alerts)
  then have 3: "map triggerCount (alerts (fst (snd ?r))) = [0]"
    by (simp add: disabled_alert_def example_alert_def)
  show ?thesis using spike_condition_holds 1 2 3 by blast
qed

text \<open>
  Claim C1, on the code. An enabled alert whose list of conditions is empty evaluates to
  true: \<open>every\<close> over the empty array holds. On a fresh engine, with the empty context, the
  tick returns the alert and its in-app action is dispatched.
\<close>

theorem empty_conditions_alert_triggers:
  "conditions unconditional_alert = []
   \<and> evaluateAlert lc unconditional_alert ctx
   \<and> fst (checkAlerts lc offline_world (setAlerts new_AlertEngine [unconditional_alert]))
       = [unconditional_alert]
   \<and> events (snd (snd (checkAlerts lc offline_world
         (setAlerts new_AlertEngine [unconditional_alert]))))
       = [InAppLog (triggerData_of offline_world unconditional_alert
                      (context_e new_AlertEngine))]"
proof -
  have c: "conditions unconditional_alert = []" "enabled unconditional_alert"
          "actions unconditional_alert = [in_app_action]"
    by (simp_all add: unconditional_alert_def example_alert_def)
  have e: "evaluateAlert lc unconditional_alert x" for x
    using c by (simp add: evaluateAlert_no_conditions)
  have t: "triggerAlert offline_world unconditional_alert x
      = (True, offline_world\<lparr>events :=
           [InAppLog (triggerData_of offline_world unconditional_alert x)]\<rparr>)" for x
    by (simp add: triggerAlert_def c executeAction_def in_app_action_def offline_world_def)
  have k: "checkAlerts lc offline_world (setAlerts new_AlertEngine [unconditional_alert])
      = ([unconditional_alert], setAlerts new_AlertEngine [unconditional_alert],
         offline_world\<lparr>events :=
           [InAppLog (triggerData_of offline_world unconditional_alert
              (context_e new_AlertEngine))]\<rparr>)"
    by (simp add: checkAlerts_def setAlerts_def e t)
  show ?thesis by (simp add: c e k)
qed

section \<open>Feed merge: properties\<close>

lemma split_comma_nonempty: "split_comma s \<noteq> []"
  by (induction s) (auto split: list.splits)

lemma sorted_newest_first:
  "sorted_wrt (\<lambda>a b. createdAt b \<le> createdAt a) (sort_newest_first ts)"
proof -
  have "sorted (map (\<lambda>t. - createdAt t) (sort_newest_first ts))"
    by (simp add: sort_newest_first_def)
  then show ?thesis by (simp add: sorted_map)
qed

lemma mset_sort_newest_first: "mset (sort_newest_first ts) = mset ts"
  by (simp add: sort_newest_first_def)

lemma times_sort_newest_first:
  assumes "mset ts = mset ts'"
  shows "map createdAt (sort_newest_first ts) = map createdAt (sort_newest_first ts')"
proof -
  let ?f = "\<lambda>t. - createdAt t"
  have a: "map ?f (sort_key ?f ts) = sort (map ?f ts')"
  proof (rule properties_for_sort [symmetric])
    have "mset (map ?f (sort_key ?f ts)) = image_mset ?f (mset ts)" by simp
    also have "\<dots> = mset (map ?f ts')" using assms by simp
    finally show "mset (map ?f (sort_key ?f ts)) = mset (map ?f ts')" .
    show "sorted (map ?f (sort_key ?f ts))" by simp
  qed
  have b: "map ?f (sort_key ?f ts') = sort (map ?f ts')"
    by (rule properties_for_sort [symmetric]) simp_all
  have "map ?f (sort_newest_first ts) = map ?f (sort_newest_first ts')"
    using a b by (simp add: sort_newest_first_def)
  then have "map uminus (map ?f (sort_newest_first ts))
      = map uminus (map ?f (sort_newest_first ts'))"
    by simp
  then show ?thesis by (simp add: comp_def)
qed

lemma mset_fulfilled:
  "mset (fulfilled rs)
     = sum_mset (image_mset (\<lambda>(s, r). case r of Inr v \<Rightarrow> mset v | Inl _ \<Rightarrow> {#}) (mset rs))"
  by (induction rs) (auto simp: fulfilled_def split: sum.splits)

lemma mset_fulfilled_perm: "mset rs = mset rs' \<Longrightarrow> mset (fulfilled rs) = mset (fulfilled rs')"
  by (simp add: mset_fulfilled)

lemma fst_merge_settled: "fst (merge_settled rs) = sort_newest_first (fulfilled rs)"
  by (simp add: merge_settled_def fulfilled_def Let_def)

lemma fst_fetchAllRssFeeds:
  "fst (fetchAllRssFeeds env ids limit)
     = fst (merge_settled (map (\<lambda>s. (s, fetchRssFeed env s limit))
              (filter (\<lambda>f. feed_id f \<in> set ids) RSS_FEEDS)))"
  by (simp add: fetchAllRssFeeds_def Let_def)

text \<open>
  Claim C8, as amended. For every list of settled adapter results, the merged output is
  ordered by \<open>createdAt\<close> descending, newest first, where equal times may follow one
  another; it holds exactly the items of the fulfilled results; and the sequence of its
  times is the same for every order of the adapter results.
\<close>

theorem merge_sorted_newest_first:
  "sorted_wrt (\<lambda>a b. createdAt b \<le> createdAt a) (fst (merge_settled rs))
   \<and> mset (fst (merge_settled rs)) = mset (fulfilled rs)
   \<and> (mset rs = mset rs' \<longrightarrow>
        map createdAt (fst (merge_settled rs)) = map createdAt (fst (merge_settled rs')))
   \<and> sorted_wrt (\<lambda>a b. createdAt b \<le> createdAt a) (fst (fetchAllRssFeeds env ids limit))"
proof -
  have 1: "sorted_wrt (\<lambda>a b. createdAt b \<le> createdAt a) (fst (merge_settled rs))"
    unfolding fst_merge_settled by (rule sorted_newest_first)
  have 2: "mset (fst (merge_settled rs)) = mset (fulfilled rs)"
    unfolding fst_merge_settled by (rule mset_sort_newest_first)
  have 3: "mset rs = mset rs' \<longrightarrow>
        map createdAt (fst (merge_settled rs)) = map createdAt (fst (merge_settled rs'))"
    unfolding fst_merge_settled
    using times_sort_newest_first [OF mset_fulfilled_perm] by blast
  have 4: "sorted_wrt (\<lambda>a b. createdAt b \<le> createdAt a) (fst (fetchAllRssFeeds env ids limit))"
    unfolding fst_fetchAllRssFeeds fst_merge_settled by (rule sorted_newest_first)
  show ?thesis using 1 2 3 4 by blast
qed

text \<open>
  Three settled results, one rejected, and the same results in the reverse order.
\<close>

theorem merge_sorted_newest_first_witness:
  "map createdAt (fst (merge_settled two_results)) = [3, 2, 1]
   \<and> map createdAt (fst (merge_settled (rev two_results))) = [3, 2, 1]
   \<and> snd (merge_settled two_results) = [''CoinDesk: unknown error'']"
proof -
  have p: "mset two_results = mset (rev two_results)" by simp
  have e: "map createdAt (fst (merge_settled two_results))
      = map createdAt (fst (merge_settled (rev two_results)))"
    using merge_sorted_newest_first [of two_results "rev two_results"] p by blast
  have v: "map createdAt (fst (merge_settled two_results)) = [3, 2, 1]"
    by (simp add: merge_settled_def two_results_def sort_newest_first_def feed_tweet_def)
  have m: "snd (merge_settled two_results) = [''CoinDesk: unknown error'']"
    by (simp add: merge_settled_def two_results_def RSS_FEEDS_def)
  show ?thesis using e v m by simp
qed

text \<open>
  Two feeds with one item each, published at the same millisecond: the merged output has
  two equal times side by side, so it is not strictly descending.
\<close>

theorem merge_not_strictly_sorted:
  "map createdAt (fst (fetchAllRssFeeds tie_providers [''defillama'', ''coindesk''] (Some 10)))
     = [1000, 1000]
   \<and> \<not> sorted_wrt (\<lambda>a b. createdAt b < createdAt a)
         (fst (fetchAllRssFeeds tie_providers [''defillama'', ''coindesk''] (Some 10)))"
  by (simp add: fetchAllRssFeeds_def RSS_FEEDS_def merge_settled_def fetchRssFeed_def
      tie_providers_def failing_providers_def js_slice0_def sort_newest_first_def feed_tweet_def)

section \<open>The route: properties\<close>

lemma GET_source: "resp_source (GET lc env req) \<in> {''rss'', ''newsapi'', ''x_api'', ''mock''}"
  by (simp add: GET_def newsapi_tier_def xapi_tier_def mock_tier_def Let_def split_beta
      split: sum.splits)

lemma GET_rss_empty:
  "fst (rss_sliced lc env req) = [] \<Longrightarrow>
     GET lc env req = newsapi_tier env (param_or (query_p req) default_query) (min50 (max_parsed req))"
  by (simp add: GET_def Let_def split_beta)

lemma newsapi_tier_fails:
  "newsapi_configured env \<longrightarrow>
     (case newsapi env q of Inl err \<Rightarrow> True | Inr (status, ts) \<Rightarrow> status \<noteq> ''ok'')
     \<Longrightarrow> newsapi_tier env q m = xapi_tier env q m"
  by (auto simp: newsapi_tier_def split: sum.splits)

lemma xapi_tier_fails:
  "xapi_configured env \<longrightarrow> isl (xapi env q) \<Longrightarrow> xapi_tier env q m = mock_tier env m"
  by (auto simp: xapi_tier_def split: sum.splits)

lemma mock_tier_length: "length (resp_tweets (mock_tier env m)) = array_length m"
  by (simp add: mock_tier_def)

lemma js_slice0_Nil: "js_slice0 [] n = []"
  by (simp add: js_slice0_def split: option.splits)

lemma fetchAllRssFeeds_all_fail:
  assumes "\<forall>u. isl (rss env u)"
  shows "fst (fetchAllRssFeeds env ids limit) = []"
proof -
  have f: "fetchRssFeed env s limit = Inl (projl (rss env (url s)))" for s
    using assms [rule_format, of "url s"]
    by (cases "rss env (url s)") (simp_all add: fetchRssFeed_def)
  have "fulfilled (map (\<lambda>s. (s, fetchRssFeed env s limit)) srcs) = []" for srcs
    by (induction srcs) (simp_all add: fulfilled_def f)
  then show ?thesis
    by (simp add: fst_fetchAllRssFeeds fst_merge_settled sort_newest_first_def)
qed

lemma rss_sliced_all_fail:
  assumes "\<forall>u. isl (rss env u)"
  shows "fst (rss_sliced lc env req) = []"
  using fetchAllRssFeeds_all_fail [OF assms]
  by (simp add: rss_sliced_def Let_def split_beta filterByKeywords_def js_slice0_Nil)

lemma failing_rss_sliced: "fst (rss_sliced toLowerCase_ascii failing_providers (request_max m)) = []"
  by (rule rss_sliced_all_fail) (simp add: failing_providers_def)

text \<open>
  The two provider tiers return what they get without looking at its length: when the feeds
  give nothing and NewsAPI answers \<open>ok\<close> with no article, the route returns that empty
  list and does not reach the mock tier.
\<close>

lemma GET_newsapi_empty:
  "GET toLowerCase_ascii empty_newsapi_providers (request_max (Some 20))
     = \<lparr> resp_tweets = [], resp_source = ''newsapi'', resp_errors = [] \<rparr>"
proof -
  have "fst (rss_sliced toLowerCase_ascii empty_newsapi_providers (request_max (Some 20))) = []"
    by (rule rss_sliced_all_fail) (simp add: empty_newsapi_providers_def failing_providers_def)
  from GET_rss_empty [OF this] show ?thesis
    by (simp add: newsapi_tier_def empty_newsapi_providers_def failing_providers_def)
qed

text \<open>
  Claim C4, as amended. For every query and every \<open>max\<close>, the route returns a response,
  from one of its four tiers. When the feed tier gives no item after filtering and capping,
  and each of the two provider tiers is unconfigured or fails, the response is the one of
  the mock tier, with one generated tweet per index below \<open>max\<close> capped at 50: exactly
  \<open>max\<close> items for \<open>0 \<le> max \<le> 50\<close>, and a non-empty list exactly when \<open>max\<close> is at
  least 1.
\<close>

theorem GET_total_and_mock_fallback:
  "resp_source (GET lc env req) \<in> {''rss'', ''newsapi'', ''x_api'', ''mock''}
   \<and> (fst (rss_sliced lc env req) = []
      \<and> (newsapi_configured env \<longrightarrow>
           (case newsapi env (param_or (query_p req) default_query) of
              Inl err \<Rightarrow> True | Inr (status, ts) \<Rightarrow> status \<noteq> ''ok''))
      \<and> (xapi_configured env \<longrightarrow> isl (xapi env (param_or (query_p req) default_query)))
      \<longrightarrow> resp_source (GET lc env req) = ''mock''
          \<and> resp_tweets (GET lc env req) = map (mock env) [0..<array_length (min50 (max_parsed req))]
          \<and> (\<forall>n. max_parsed req = Some n \<and> 0 \<le> n \<and> n \<le> 50
                \<longrightarrow> int (length (resp_tweets (GET lc env req))) = n)
          \<and> (resp_tweets (GET lc env req) \<noteq> [] \<longleftrightarrow> (\<exists>n. max_parsed req = Some n \<and> 1 \<le> n)))"
proof -
  let ?q = "param_or (query_p req) default_query"
  let ?m = "min50 (max_parsed req)"
  have len: "\<forall>n. max_parsed req = Some n \<and> 0 \<le> n \<and> n \<le> 50
                \<longrightarrow> int (array_length ?m) = n"
    by (auto simp: array_length_def min50_def)
  have ne: "(array_length ?m \<noteq> 0) = (\<exists>n. max_parsed req = Some n \<and> 1 \<le> n)"
    by (auto simp: array_length_def min50_def split: option.splits)
  {
    assume h: "fst (rss_sliced lc env req) = []"
      "newsapi_configured env \<longrightarrow>
           (case newsapi env ?q of Inl err \<Rightarrow> True | Inr (status, ts) \<Rightarrow> status \<noteq> ''ok'')"
      "xapi_configured env \<longrightarrow> isl (xapi env ?q)"
    have g: "GET lc env req = mock_tier env ?m"
      using GET_rss_empty [OF h(1)] newsapi_tier_fails [OF h(2)] xapi_tier_fails [OF h(3)]
      by simp
    have "resp_source (GET lc env req) = ''mock''" by (simp add: g mock_tier_def)
    moreover have "resp_tweets (GET lc env req) = map (mock env) [0..<array_length ?m]"
      by (simp add: g mock_tier_def)
    moreover have "\<forall>n. max_parsed req = Some n \<and> 0 \<le> n \<and> n \<le> 50
                \<longrightarrow> int (length (resp_tweets (GET lc env req))) = n"
      using len by (simp add: g mock_tier_length)
    moreover have "resp_tweets (GET lc env req) \<noteq> [] \<longleftrightarrow> (\<exists>n. max_parsed req = Some n \<and> 1 \<le> n)"
      using ne by (simp add: g mock_tier_def)
    ultimately have "resp_source (GET lc env req) = ''mock''
          \<and> resp_tweets (GET lc env req) = map (mock env) [0..<array_length ?m]
          \<and> (\<forall>n. max_parsed req = Some n \<and> 0 \<le> n \<and> n \<le> 50
                \<longrightarrow> int (length (resp_tweets (GET lc env req))) = n)
          \<and> (resp_tweets (GET lc env req) \<noteq> [] \<longleftrightarrow> (\<exists>n. max_parsed req = Some n \<and> 1 \<le> n))"
      by blast
  }
  then show ?thesis using GET_source by blast
qed

text \<open>Every provider fails and \<open>max\<close> is 20: twenty mock tweets.\<close>

theorem GET_total_and_mock_fallback_witness:
  "resp_source (GET toLowerCase_ascii failing_providers (request_max (Some 20))) = ''mock''
   \<and> length (resp_tweets (GET toLowerCase_ascii failing_providers (request_max (Some 20)))) = 20
   \<and> resp_tweets (GET toLowerCase_ascii failing_providers (request_max (Some 20))) \<noteq> []"
proof -
  have a: "fst (rss_sliced toLowerCase_ascii failing_providers (request_max (Some 20))) = []"
    by (rule failing_rss_sliced)
  have b: "\<not> newsapi_configured failing_providers" "\<not> xapi_configured failing_providers"
    by (simp_all add: failing_providers_def)
  have c: "max_parsed (request_max (Some 20)) = Some 20" by (simp add: request_max_def)
  show ?thesis
    using GET_total_and_mock_fallback [of toLowerCase_ascii failing_providers "request_max (Some 20)"] a b c
    by (simp add: array_length_def min50_def)
qed

text \<open>Every provider fails and \<open>max\<close> is 0: the mock tier answers with no item.\<close>

theorem GET_zero_max_is_empty:
  "resp_tweets (GET toLowerCase_ascii failing_providers (request_max (Some 0))) = []
   \<and> resp_source (GET toLowerCase_ascii failing_providers (request_max (Some 0))) = ''mock''"
  using GET_rss_empty [OF failing_rss_sliced, of "Some 0"]
  by (simp add: newsapi_tier_def xapi_tier_def mock_tier_def failing_providers_def
      array_length_def min50_def request_max_def)
end
